theory Spec2Isabelle
  imports Complex_Main
begin

section \<open>Rasters and library errors\<close>

text \<open>
  A grayscale image is a numpy array of shape (height, width) with dtype uint8. It is
  modelled as a list of rows of Python integers; \<open>is_raster\<close> says that the rows are
  non-empty, of one length, and that every sample is an 8-bit value. Saturation and
  truncation are written out wherever the libraries perform them, so no bound on a sample
  is hidden in a type.
\<close>

type_synonym raster = "int list list"

definition height :: "raster \<Rightarrow> nat" where
  "height img = length img"

definition width :: "raster \<Rightarrow> nat" where
  "width img = (case img of [] \<Rightarrow> 0 | r # _ \<Rightarrow> length r)"

definition is_raster :: "raster \<Rightarrow> bool" where
  "is_raster img \<longleftrightarrow>
     0 < height img \<and> 0 < width img \<and>
     list_all (\<lambda>r. length r = width img \<and> list_all (\<lambda>p. 0 \<le> p \<and> p \<le> 255) r) img"

definition empty_img :: "raster \<Rightarrow> bool" where
  "empty_img img \<longleftrightarrow> height img = 0 \<or> width img = 0"

text \<open>
  Exceptions raised inside the libraries the program calls: \<open>cv2.error\<close> from OpenCV,
  \<open>ValueError\<close> from numpy, \<open>RuntimeError\<close> from scipy.
\<close>

datatype lib_error = CvError | ValueError | RuntimeError

fun bind_err :: "lib_error + 'a \<Rightarrow> ('a \<Rightarrow> lib_error + 'b) \<Rightarrow> lib_error + 'b" where
  "bind_err (Inl e) f = Inl e"
| "bind_err (Inr x) f = f x"

fun traverse :: "('a \<Rightarrow> lib_error + 'b) \<Rightarrow> 'a list \<Rightarrow> lib_error + 'b list" where
  "traverse f [] = Inr []"
| "traverse f (x # xs) =
     bind_err (f x) (\<lambda>y. bind_err (traverse f xs) (\<lambda>ys. Inr (y # ys)))"

section \<open>Neighbourhoods and border handling\<close>

text \<open>
  The three border rules used by the library calls of the program, each mapping a
  coordinate \<open>p\<close> that may lie outside \<open>0..n-1\<close> to a coordinate inside:
  OpenCV's default BORDER_REFLECT_101 (\<open>cv2.blur\<close>, \<open>cv2.Laplacian\<close>, \<open>cv2.Sobel\<close>),
  OpenCV's BORDER_REPLICATE (\<open>cv2.medianBlur\<close>) and scipy's mode \<open>reflect\<close>
  (\<open>ndimage.generic_filter\<close>).
\<close>

definition reflect101 :: "int \<Rightarrow> nat \<Rightarrow> nat" where
  "reflect101 p n =
     (if n \<le> 1 then 0
      else let m = p mod (2 * int n - 2) in nat (if m < int n then m else 2 * int n - 2 - m))"

definition replicate_border :: "int \<Rightarrow> nat \<Rightarrow> nat" where
  "replicate_border p n = nat (max 0 (min (int n - 1) p))"

definition reflect_sym :: "int \<Rightarrow> nat \<Rightarrow> nat" where
  "reflect_sym p n =
     (let m = p mod (2 * int n) in nat (if m < int n then m else 2 * int n - 1 - m))"

text \<open>
  The k-by-k window around pixel (i, j), row by row; the window starts \<open>k div 2\<close> samples
  before the pixel in each direction (the default anchor of OpenCV and the default origin
  of scipy).
\<close>

definition window :: "(int \<Rightarrow> nat \<Rightarrow> nat) \<Rightarrow> raster \<Rightarrow> nat \<Rightarrow> nat \<Rightarrow> nat \<Rightarrow> int list" where
  "window border img k i j =
     concat (map (\<lambda>di. map (\<lambda>dj.
         img ! border (int i + int di - int (k div 2)) (height img)
             ! border (int j + int dj - int (k div 2)) (width img))
       [0..<k]) [0..<k])"

definition neighbourhood_filter ::
  "(int \<Rightarrow> nat \<Rightarrow> nat) \<Rightarrow> (int list \<Rightarrow> lib_error + int) \<Rightarrow> raster \<Rightarrow> nat \<Rightarrow> lib_error + raster" where
  "neighbourhood_filter border f img k =
     traverse (\<lambda>i. traverse (\<lambda>j. f (window border img k i j)) [0..<width img])
       [0..<height img]"

section \<open>Saturating conversions\<close>

definition saturate_u8 :: "int \<Rightarrow> int" where
  "saturate_u8 x = (if x < 0 then 0 else if 255 < x then 255 else x)"

definition saturate_s16 :: "int \<Rightarrow> int" where
  "saturate_s16 x = (if x < - 32768 then - 32768 else if 32767 < x then 32767 else x)"

text \<open>\<open>cvRound\<close> of the quotient \<open>a / b\<close> for \<open>0 < b\<close>: to the nearest integer, a tie to the even one.\<close>

definition round_div :: "int \<Rightarrow> int \<Rightarrow> int" where
  "round_div a b =
     (let q = a div b; r = a mod b
      in if 2 * r < b then q else if b < 2 * r then q + 1 else if even q then q else q + 1)"

section \<open>The pipeline functions\<close>

subsection \<open>Mean\<close>

text \<open>
  \<open>cv2.blur(img, (ksize, ksize))\<close>: the normalised box filter. It raises on an empty
  image and on a kernel size below 1, and accepts every positive size, even ones too.
\<close>

definition mean_value :: "int list \<Rightarrow> lib_error + int" where
  "mean_value xs = Inr (saturate_u8 (round_div (sum_list xs) (int (length xs))))"

definition cv2_blur :: "raster \<Rightarrow> int \<Rightarrow> lib_error + raster" where
  "cv2_blur img ksize =
     (if empty_img img \<or> ksize \<le> 0 then Inl CvError
      else neighbourhood_filter reflect101 mean_value img (nat ksize))"

definition apply_mean_filter :: "raster \<Rightarrow> int \<Rightarrow> lib_error + raster" where
  "apply_mean_filter img ksize = cv2_blur img ksize"

subsection \<open>Median\<close>

text \<open>
  \<open>cv2.medianBlur(img, ksize)\<close> asserts a non-empty image and \<open>ksize % 2 == 1\<close> (in C, so
  a negative size fails too), copies the image for size 1, and otherwise takes the middle
  element of each sorted window.
\<close>

definition median_value :: "int list \<Rightarrow> lib_error + int" where
  "median_value xs = Inr (sort xs ! (length xs div 2))"

definition cv2_medianBlur :: "raster \<Rightarrow> int \<Rightarrow> lib_error + raster" where
  "cv2_medianBlur img ksize =
     (if empty_img img \<or> ksize \<le> 0 \<or> even ksize then Inl CvError
      else if ksize \<le> 1 then Inr img
      else neighbourhood_filter replicate_border median_value img (nat ksize))"

definition apply_median_filter :: "raster \<Rightarrow> int \<Rightarrow> lib_error + raster" where
  "apply_median_filter img ksize = cv2_medianBlur img ksize"

subsection \<open>Mode\<close>

text \<open>
  \<open>np.bincount(x)\<close>: the frequency table of a list of non-negative integers, with one
  entry for every value from 0 to the largest one; a negative value raises.
  \<open>argmax\<close>: the first index of the largest entry; an empty table raises.
\<close>

definition bincount :: "int list \<Rightarrow> lib_error + nat list" where
  "bincount xs =
     (if list_ex (\<lambda>x. x < 0) xs then Inl ValueError
      else if xs = [] then Inr []
      else Inr (map (\<lambda>v. count_list xs (int v)) [0..<Suc (nat (Max (set xs)))]))"

fun argmax_loop :: "nat list \<Rightarrow> nat \<Rightarrow> nat \<Rightarrow> nat \<Rightarrow> nat" where
  "argmax_loop [] i best_i best_v = best_i"
| "argmax_loop (c # cs) i best_i best_v =
     (if best_v < c then argmax_loop cs (Suc i) i c
      else argmax_loop cs (Suc i) best_i best_v)"

definition argmax :: "nat list \<Rightarrow> lib_error + nat" where
  "argmax cs = (case cs of [] \<Rightarrow> Inl ValueError | c # cs' \<Rightarrow> Inr (argmax_loop cs' 1 0 c))"

text \<open>The lambda of \<open>apply_mode_filter\<close>: \<open>lambda x: np.bincount(x.astype(int)).argmax()\<close>.\<close>

definition mode_value :: "int list \<Rightarrow> lib_error + int" where
  "mode_value x = bind_err (bincount x) (\<lambda>table. bind_err (argmax table) (\<lambda>m. Inr (int m)))"

text \<open>
  \<open>ndimage.generic_filter(img, f, size=ksize)\<close> calls \<open>f\<close> on every window (border mode
  \<open>reflect\<close>) and stores the result in an array of the input's dtype, uint8. A negative
  size raises when the footprint is allocated, size 0 when its shape is checked.
\<close>

definition generic_filter :: "raster \<Rightarrow> (int list \<Rightarrow> lib_error + int) \<Rightarrow> int \<Rightarrow> lib_error + raster" where
  "generic_filter img f sz =
     (if sz < 0 then Inl ValueError
      else if sz = 0 then Inl RuntimeError
      else neighbourhood_filter reflect_sym
             (\<lambda>x. bind_err (f x) (\<lambda>v. Inr (v mod 256))) img (nat sz))"

definition apply_mode_filter :: "raster \<Rightarrow> int \<Rightarrow> lib_error + raster" where
  "apply_mode_filter img ksize = generic_filter img mode_value ksize"

subsection \<open>Laplacian sharpening and Sobel edges\<close>

text \<open>
  \<open>cv2.filter2D\<close> with a 3-by-3 integer kernel and destination depth CV_16S: the
  correlation of each window with the kernel, stored with \<open>saturate_cast<short>\<close>.
  \<open>cv2.Laplacian(img, cv2.CV_16S, ksize=3)\<close> and \<open>cv2.Sobel(img, cv2.CV_16S, dx, dy, ksize=3)\<close>
  are this filter with the kernels below (OpenCV uses the first Laplacian kernel for
  aperture 1 and the second for aperture 3).
\<close>

definition correlate :: "int list \<Rightarrow> int list \<Rightarrow> int" where
  "correlate kern w = sum_list (map (\<lambda>(c, x). c * x) (zip kern w))"

definition filter2D_16S :: "raster \<Rightarrow> int list \<Rightarrow> lib_error + raster" where
  "filter2D_16S img kern =
     (if empty_img img then Inl CvError
      else neighbourhood_filter reflect101 (\<lambda>w. Inr (saturate_s16 (correlate kern w))) img 3)"

definition laplacian_kernel :: "int \<Rightarrow> int list" where
  "laplacian_kernel ksize =
     (if ksize = 1 then [0, 1, 0, 1, - 4, 1, 0, 1, 0] else [2, 0, 2, 0, - 8, 0, 2, 0, 2])"

definition sobel_x_kernel :: "int list" where
  "sobel_x_kernel = [- 1, 0, 1, - 2, 0, 2, - 1, 0, 1]"

definition sobel_y_kernel :: "int list" where
  "sobel_y_kernel = [- 1, - 2, - 1, 0, 0, 0, 1, 2, 1]"

definition cv2_Laplacian :: "raster \<Rightarrow> lib_error + raster" where
  "cv2_Laplacian img = filter2D_16S img (laplacian_kernel 3)"

definition cv2_Sobel :: "raster \<Rightarrow> nat \<Rightarrow> nat \<Rightarrow> lib_error + raster" where
  "cv2_Sobel img dx dy =
     (if dx = 1 \<and> dy = 0 then filter2D_16S img sobel_x_kernel
      else if dx = 0 \<and> dy = 1 then filter2D_16S img sobel_y_kernel
      else Inl CvError)"

text \<open>\<open>cv2.convertScaleAbs\<close>: the absolute value of every sample, saturated to 8 bits.\<close>

definition convertScaleAbs :: "raster \<Rightarrow> raster" where
  "convertScaleAbs img = map (map (\<lambda>x. saturate_u8 \<bar>x\<bar>)) img"

text \<open>
  Sample-wise operations on two arrays of one shape (another shape raises):
  \<open>cv2.subtract\<close> is the saturated difference, \<open>cv2.addWeighted(a, 0.5, b, 0.5, 0)\<close>
  the saturated rounded half sum.
\<close>

definition same_shape :: "raster \<Rightarrow> raster \<Rightarrow> bool" where
  "same_shape a b \<longleftrightarrow> map length a = map length b"

definition pointwise :: "(int \<Rightarrow> int \<Rightarrow> int) \<Rightarrow> raster \<Rightarrow> raster \<Rightarrow> lib_error + raster" where
  "pointwise f a b =
     (if same_shape a b then Inr (map (\<lambda>(r, r'). map (\<lambda>(x, y). f x y) (zip r r')) (zip a b))
      else Inl CvError)"

definition cv2_subtract :: "raster \<Rightarrow> raster \<Rightarrow> lib_error + raster" where
  "cv2_subtract a b = pointwise (\<lambda>x y. saturate_u8 (x - y)) a b"

definition cv2_addWeighted_half :: "raster \<Rightarrow> raster \<Rightarrow> lib_error + raster" where
  "cv2_addWeighted_half a b = pointwise (\<lambda>x y. saturate_u8 (round_div (x + y) 2)) a b"

definition apply_laplacian_filter :: "raster \<Rightarrow> lib_error + raster" where
  "apply_laplacian_filter img =
     bind_err (cv2_Laplacian img) (\<lambda>lap.
       let lap_abs = convertScaleAbs lap in cv2_subtract img lap_abs)"

definition apply_sobel_filter :: "raster \<Rightarrow> lib_error + raster" where
  "apply_sobel_filter img =
     bind_err (cv2_Sobel img 1 0) (\<lambda>sobelx.
     bind_err (cv2_Sobel img 0 1) (\<lambda>sobely.
       let abs_sobelx = convertScaleAbs sobelx; abs_sobely = convertScaleAbs sobely
       in cv2_addWeighted_half abs_sobelx abs_sobely))"

section \<open>The session\<close>

subsection \<open>State\<close>

text \<open>
  The fields of \<open>SpatialFilteringApp\<close> that the callbacks read and write. \<open>results\<close> is a
  Python dict: an association list with unique keys in insertion order. The Tk variables
  are modelled by their values.
\<close>

record session =
  original_img :: "raster option"
  processing_base_img :: "raster option"
  current_name :: string
  kernel_size_var :: int
  results :: "(string \<times> raster) list"
  noise_var :: string
  method_var :: string
  smooth_before_sharp_var :: int

definition init_session :: session where
  "init_session =
     \<lparr>original_img = None, processing_base_img = None, current_name = [],
      kernel_size_var = 3, results = [], noise_var = ''None'',
      method_var = ''Mean Filter'', smooth_before_sharp_var = 0\<rparr>"

text \<open>\<open>d[key] = value\<close>: an existing key keeps its place, a new key goes to the end.\<close>

fun dict_set :: "('k \<times> 'v) list \<Rightarrow> 'k \<Rightarrow> 'v \<Rightarrow> ('k \<times> 'v) list" where
  "dict_set [] key v = [(key, v)]"
| "dict_set ((key', v') # d) key v =
     (if key' = key then (key, v) # d else (key', v') # dict_set d key v)"

fun dict_get :: "('k \<times> 'v) list \<Rightarrow> 'k \<Rightarrow> 'v option" where
  "dict_get [] key = None"
| "dict_get ((key', v') # d) key = (if key' = key then Some v' else dict_get d key)"

text \<open>
  How a callback ends: it runs to its end, returns early without a message, shows a
  message box and returns, or an exception of a library call leaves it. The message boxes
  are named by the error kinds of the specification:
  \<^item> \<open>IOError\<close>: "Could not read the image file.";
  \<^item> \<open>NoImageLoaded\<close>: "No image loaded.", "Upload an image first.";
  \<^item> \<open>InvalidParameter\<close>: "Select a noise type.";
  \<^item> \<open>NoResults\<close>: "No results to save.".
\<close>

datatype error = IOError | NoImageLoaded | InvalidParameter | NoResults

datatype outcome = Done | Returned | Warned error | Raised lib_error

subsection \<open>Loading and resetting\<close>

text \<open>\<open>Path(path).stem\<close> on a POSIX path: the last component without its last suffix.\<close>

definition path_name :: "string \<Rightarrow> string" where
  "path_name p = rev (takeWhile (\<lambda>c. c \<noteq> CHR ''/'') (rev p))"

definition path_stem :: "string \<Rightarrow> string" where
  "path_stem p =
     (let name = path_name p;
          i = int (length name) - 1 - int (length (takeWhile (\<lambda>c. c \<noteq> CHR ''.'') (rev name)))
      in if 0 < i \<and> i < int (length name) - 1 then take (nat i) name else name)"

definition reset_image :: "session \<Rightarrow> outcome \<times> session" where
  "reset_image s =
     (case original_img s of
        None \<Rightarrow> (Warned NoImageLoaded, s)
      | Some orig \<Rightarrow>
          (Done, s\<lparr>processing_base_img := Some orig, results := [(''Original'', orig)]\<rparr>))"

text \<open>
  \<open>upload_image\<close>: \<open>path\<close> is what the file dialog returned (empty when cancelled) and
  \<open>imread\<close> is \<open>cv2.imread(_, cv2.IMREAD_GRAYSCALE)\<close> on the file system of the moment,
  \<open>None\<close> for a file it cannot read.
\<close>

definition upload_image :: "(string \<Rightarrow> raster option) \<Rightarrow> string \<Rightarrow> session \<Rightarrow> outcome \<times> session" where
  "upload_image imread path s =
     (if path = [] then (Returned, s)
      else case imread path of
        None \<Rightarrow> (Warned IOError, s)
      | Some img \<Rightarrow> reset_image (s\<lparr>original_img := Some img, current_name := path_stem path\<rparr>))"

subsection \<open>Noise\<close>

text \<open>
  \<open>skimage.util.random_noise\<close> draws from numpy's global generator and returns an array of
  floats. One call is a function from the image and the requested noise to that array;
  the caller of \<open>add_noise\<close> supplies it, so the random source is explicit.
  \<open>(noisy_img * 255).astype(np.uint8)\<close> truncates towards zero and keeps the low 8 bits.
\<close>

datatype noise_request = Gaussian real | SaltPepper real

type_synonym float_img = "real list list"

type_synonym random_source = "raster \<Rightarrow> noise_request \<Rightarrow> float_img"

definition astype_uint8 :: "real \<Rightarrow> int" where
  "astype_uint8 x = (if x < 0 then - \<lfloor>- x\<rfloor> else \<lfloor>x\<rfloor>) mod 256"

definition scale_to_uint8 :: "float_img \<Rightarrow> raster" where
  "scale_to_uint8 noisy_img = map (map (\<lambda>v. astype_uint8 (v * 255))) noisy_img"

definition add_noise :: "random_source \<Rightarrow> session \<Rightarrow> outcome \<times> session" where
  "add_noise random_noise s =
     (case original_img s of
        None \<Rightarrow> (Warned NoImageLoaded, s)
      | Some orig \<Rightarrow>
          let noise_type = noise_var s;
              drawn =
                (if noise_type = ''gaussian''
                 then Some (random_noise orig (Gaussian (1 / 100)), ''Base: Gaussian Noise'')
                 else if noise_type = ''s&p''
                 then Some (random_noise orig (SaltPepper (5 / 100)), ''Base: Salt & Pepper Noise'')
                 else None)
          in (case drawn of
                None \<Rightarrow> (Warned InvalidParameter, s)
              | Some (noisy_img, title) \<Rightarrow>
                  (let base = scale_to_uint8 noisy_img
                   in (Done, s\<lparr>processing_base_img := Some base,
                                results := dict_set (results s) title base\<rparr>))))"

subsection \<open>Kernel size and filtering\<close>

text \<open>Python's \<open>round\<close> of a float: to the nearest integer, a tie to the even one.\<close>

definition py_round :: "real \<Rightarrow> int" where
  "py_round x =
     (let f = \<lfloor>x\<rfloor>; d = x - of_int f
      in if d < 1 / 2 then f else if 1 / 2 < d then f + 1 else if even f then f else f + 1)"

definition update_kernel_label :: "real \<Rightarrow> session \<Rightarrow> outcome \<times> session" where
  "update_kernel_label val s =
     (let ksize = py_round val;
          ksize = ksize + (if ksize mod 2 = 0 then 1 else 0)
      in (Done, s\<lparr>kernel_size_var := ksize\<rparr>))"

definition apply_method :: "session \<Rightarrow> outcome \<times> session" where
  "apply_method s =
     (case processing_base_img s of
        None \<Rightarrow> (Warned NoImageLoaded, s)
      | Some base \<Rightarrow>
          let method = method_var s;
              ksize = kernel_size_var s;
              smooth = (smooth_before_sharp_var s \<noteq> 0 \<and>
                        method \<in> set [''Laplacian Sharpening'', ''Sobel Edge Detection'']);
              img_in = (if smooth then apply_median_filter base 5 else Inr base);
              status_prefix = (if smooth then ''Smoothed then '' else [])
          in (case img_in of
                Inl e \<Rightarrow> (Raised e, s)
              | Inr img_in \<Rightarrow>
                 (let enhanced =
                       (if method = ''Mean Filter'' then Some (apply_mean_filter img_in ksize)
                        else if method = ''Median Filter'' then Some (apply_median_filter img_in ksize)
                        else if method = ''Mode Filter'' then Some (apply_mode_filter img_in ksize)
                        else if method = ''Laplacian Sharpening'' then Some (apply_laplacian_filter img_in)
                        else if method = ''Sobel Edge Detection'' then Some (apply_sobel_filter img_in)
                        else None)
                  in (case enhanced of
                        None \<Rightarrow> (Returned, s)
                      | Some (Inl e) \<Rightarrow> (Raised e, s)
                      | Some (Inr enhanced) \<Rightarrow>
                          (let title = status_prefix @ method
                           in (Done, s\<lparr>results := dict_set (results s) title enhanced\<rparr>))))))"

subsection \<open>The report\<close>

text \<open>The decimal text of an integer, as an f-string prints it.\<close>

fun str_nat :: "nat \<Rightarrow> string" where
  "str_nat n =
     (if n < 10 then [''0123456789'' ! n]
      else str_nat (n div 10) @ [''0123456789'' ! (n mod 10)])"

definition str_int :: "int \<Rightarrow> string" where
  "str_int i = (if i < 0 then CHR ''-'' # str_nat (nat (- i)) else str_nat (nat i))"

text \<open>\<open>s.replace(old, new)\<close> for a non-empty \<open>old\<close>: every occurrence, from the left.\<close>

function str_replace :: "string \<Rightarrow> string \<Rightarrow> string \<Rightarrow> string" where
  "str_replace old new [] = []"
| "str_replace old new (c # cs) =
     (if old \<noteq> [] \<and> take (length old) (c # cs) = old
      then new @ str_replace old new (drop (length old) (c # cs))
      else c # str_replace old new cs)"
  by pat_completeness auto
termination
  by (relation "measure (\<lambda>(old, new, s). length s)") (auto simp: neq_Nil_conv)

text \<open>
  \<open>self.filter_kernels\<close>: the description of each filter, a fixed text or, for the mean
  filter, a function of a kernel size.
\<close>

datatype kernel_text = Fixed string | Sized "int \<Rightarrow> string"

definition mean_kernel_text :: "int \<Rightarrow> string" where
  "mean_kernel_text k =
     ''Kernel: 1/'' @ str_int (k * k) @ '' * ones('' @ str_int k @ '','' @ str_int k @ '')''"

definition filter_kernels :: "(string \<times> kernel_text) list" where
  "filter_kernels =
     [(''Laplacian Sharpening'',
         Fixed (''Kernel: [[0, 1, 0], [1, -4, 1], [0, 1, 0]]'' @ [CHR 0x0A] @
                ''(Subtracted from Original)'')),
      (''Sobel Edge Detection'',
         Fixed (''Sobel X: [[-1, 0, 1], [-2, 0, 2], [-1, 0, 1]]'' @ [CHR 0x0A] @
                ''Sobel Y: [[-1,-2,-1], [0,0,0], [1,2,1]]'')),
      (''Mean Filter'', Sized mean_kernel_text),
      (''Median Filter'', Fixed ''Non-linear: Takes median value in KxK neighborhood.''),
      (''Mode Filter'', Fixed ''Non-linear: Takes most frequent value in KxK neighborhood.'')]"

text \<open>
  A page of the PDF: the cover with its two lines, or an analysis page with its title,
  the left image (\<open>self.original_img\<close>), the right image and the text box, if any.
\<close>

datatype page =
    Cover string string
  | Analysis string "raster option" raster "string option"

record document =
  pdf_path :: string
  pages :: "page list"

definition clean_name :: "string \<Rightarrow> string" where
  "clean_name name = str_replace ''Smoothed then '' [] name"

definition filter_expression :: "session \<Rightarrow> string \<Rightarrow> string option" where
  "filter_expression s name =
     (case dict_get filter_kernels (clean_name name) of
        None \<Rightarrow> None
      | Some (Fixed kernel_text) \<Rightarrow> Some (''Filter Expression:'' @ [CHR 0x0A] @ kernel_text)
      | Some (Sized f) \<Rightarrow> Some (''Filter Expression:'' @ [CHR 0x0A] @ f (kernel_size_var s)))"

definition analysis_page :: "session \<Rightarrow> string \<times> raster \<Rightarrow> page" where
  "analysis_page s entry =
     (case entry of (name, proc_img) \<Rightarrow>
        Analysis (''Analysis: '' @ name) (original_img s) proc_img (filter_expression s name))"

definition save_report :: "session \<Rightarrow> error + document" where
  "save_report s =
     (if length (results s) \<le> 1 then Inl NoResults
      else Inr \<lparr>pdf_path = ''results/'' @ current_name s @ ''_Filtering_Report.pdf'',
                pages = Cover ''Spatial Filtering Analysis'' (''Image: '' @ current_name s) #
                        map (analysis_page s)
                          (filter (\<lambda>(name, proc_img). name \<noteq> ''Original'') (results s))\<rparr>)"

subsection \<open>Sequences of user actions\<close>

text \<open>
  One user action with what the outside world contributes to it: the dialog's answer and
  the file system for an upload, the random draw for a noise injection, the value a
  widget writes into its variable.
\<close>

datatype action =
    Upload "string \<Rightarrow> raster option" string
  | Reset
  | AddNoise random_source
  | ApplyMethod
  | SaveReport
  | SlideKernel real
  | SelectNoise string
  | SelectMethod string
  | SetSmooth int

fun step :: "action \<Rightarrow> session \<Rightarrow> outcome \<times> session" where
  "step (Upload imread path) s = upload_image imread path s"
| "step Reset s = reset_image s"
| "step (AddNoise random_noise) s = add_noise random_noise s"
| "step ApplyMethod s = apply_method s"
| "step SaveReport s = (case save_report s of Inl e \<Rightarrow> (Warned e, s) | Inr d \<Rightarrow> (Done, s))"
| "step (SlideKernel val) s = update_kernel_label val s"
| "step (SelectNoise v) s = (Done, s\<lparr>noise_var := v\<rparr>)"
| "step (SelectMethod v) s = (Done, s\<lparr>method_var := v\<rparr>)"
| "step (SetSmooth v) s = (Done, s\<lparr>smooth_before_sharp_var := v\<rparr>)"

fun run :: "action list \<Rightarrow> session \<Rightarrow> session" where
  "run [] s = s"
| "run (a # as) s = run as (snd (step a s))"

text \<open>
  \<open>loads a\<close>: the action is an upload, the only one that writes \<open>original_img\<close>.
\<close>

fun loads :: "action \<Rightarrow> bool" where
  "loads (Upload imread path) = True"
| "loads a = False"

text \<open>
  What every session reached from the start satisfies: the keys of \<open>results\<close> are
  unique; before the first upload nothing is stored; afterwards there is a working base
  and the entry \<open>Original\<close> holds the loaded image.
\<close>

definition consistent :: "session \<Rightarrow> bool" where
  "consistent s \<longleftrightarrow>
     distinct (map fst (results s)) \<and>
     (case original_img s of
        None \<Rightarrow> processing_base_img s = None \<and> results s = []
      | Some orig \<Rightarrow>
          processing_base_img s \<noteq> None \<and> dict_get (results s) ''Original'' = Some orig)"

section \<open>Facts about the library models\<close>

subsection \<open>Traversals, borders and windows\<close>

lemma traverse_Inr_iff:
  "traverse f xs = Inr ys \<longleftrightarrow>
     length ys = length xs \<and> (\<forall>i<length xs. f (xs ! i) = Inr (ys ! i))"
proof (induction xs arbitrary: ys)
  case Nil
  then show ?case by auto
next
  case (Cons x xs)
  show ?case
  proof (cases "f x")
    case (Inl e)
    then show ?thesis by auto
  next
    case fx: (Inr y)
    show ?thesis
    proof (cases "traverse f xs")
      case (Inl e)
      have "\<not> (length (tl ys) = length xs \<and> (\<forall>i<length xs. f (xs ! i) = Inr (tl ys ! i)))"
        using Cons.IH [of "tl ys"] Inl by simp
      then have "\<not> (length ys = length (x # xs) \<and> (\<forall>i<length (x # xs). f ((x # xs) ! i) = Inr (ys ! i)))"
        by (cases ys) auto
      then show ?thesis using fx Inl by simp
    next
      case (Inr zs)
      then have zs: "length zs = length xs" "\<forall>i<length xs. f (xs ! i) = Inr (zs ! i)"
        using Cons.IH [of zs] by simp_all
      show ?thesis
      proof
        assume "traverse f (x # xs) = Inr ys"
        then have "ys = y # zs" using fx Inr by simp
        then show "length ys = length (x # xs) \<and> (\<forall>i<length (x # xs). f ((x # xs) ! i) = Inr (ys ! i))"
          using zs fx by (auto simp: nth_Cons split: nat.splits)
      next
        assume a: "length ys = length (x # xs) \<and> (\<forall>i<length (x # xs). f ((x # xs) ! i) = Inr (ys ! i))"
        then obtain y' ys' where ys: "ys = y' # ys'" by (cases ys) auto
        from a ys have "f x = Inr y'" by auto
        with fx have y': "y' = y" by simp
        from a ys have "length ys' = length xs \<and> (\<forall>i<length xs. f (xs ! i) = Inr (ys' ! i))"
          by auto
        then have "traverse f xs = Inr ys'" using Cons.IH [of ys'] by simp
        then show "traverse f (x # xs) = Inr ys" using fx ys y' by simp
      qed
    qed
  qed
qed

lemma traverse_total:
  assumes "\<forall>x\<in>set xs. \<exists>y. f x = Inr y"
  shows "\<exists>ys. traverse f xs = Inr ys"
  using assms
proof (induction xs)
  case Nil
  then show ?case by simp
next
  case (Cons x xs)
  then obtain y ys where "f x = Inr y" "traverse f xs = Inr ys" by auto
  then show ?case by simp
qed

lemma neighbourhood_filter_Inr_iff:
  "neighbourhood_filter border f img k = Inr out \<longleftrightarrow>
     length out = height img \<and>
     (\<forall>i<height img. length (out ! i) = width img \<and>
        (\<forall>j<width img. f (window border img k i j) = Inr (out ! i ! j)))"
  by (simp add: neighbourhood_filter_def traverse_Inr_iff)

lemma neighbourhood_filter_total:
  assumes "\<And>i j. i < height img \<Longrightarrow> j < width img \<Longrightarrow> \<exists>y. f (window border img k i j) = Inr y"
  shows "\<exists>out. neighbourhood_filter border f img k = Inr out"
  unfolding neighbourhood_filter_def
  by (rule traverse_total) (auto intro!: traverse_total assms)

lemma reflect101_less: "0 < n \<Longrightarrow> reflect101 p n < n"
proof -
  assume n: "0 < n"
  show ?thesis
  proof (cases "n \<le> 1")
    case True
    with n show ?thesis by (simp add: reflect101_def)
  next
    case False
    then have pos: "0 < 2 * int n - 2" by simp
    define m where "m = p mod (2 * int n - 2)"
    have "0 \<le> m" "m < 2 * int n - 2"
      using pos by (simp_all add: m_def)
    then show ?thesis using False
      by (auto simp: reflect101_def m_def [symmetric] Let_def)
  qed
qed

lemma replicate_border_less: "0 < n \<Longrightarrow> replicate_border p n < n"
  by (auto simp: replicate_border_def)

lemma reflect_sym_less: "0 < n \<Longrightarrow> reflect_sym p n < n"
proof -
  assume n: "0 < n"
  define m where "m = p mod (2 * int n)"
  have "0 \<le> m" "m < 2 * int n" using n by (simp_all add: m_def)
  then show ?thesis using n by (auto simp: reflect_sym_def m_def [symmetric] Let_def)
qed

lemma is_raster_sample:
  assumes "is_raster img" "i < height img" "j < width img"
  shows "0 \<le> img ! i ! j \<and> img ! i ! j \<le> 255"
proof -
  have row: "img ! i \<in> set img" using assms by (simp add: height_def)
  then have "length (img ! i) = width img" "list_all (\<lambda>p. 0 \<le> p \<and> p \<le> 255) (img ! i)"
    using assms(1) by (auto simp: is_raster_def list_all_iff)
  then show ?thesis using assms(3) by (auto simp: list_all_iff)
qed

lemma window_samples:
  assumes img: "is_raster img" and border: "\<And>p n. 0 < n \<Longrightarrow> border p n < n"
    and x: "x \<in> set (window border img k i j)"
  shows "0 \<le> x \<and> x \<le> 255"
proof -
  have h: "0 < height img" and w: "0 < width img" using img by (simp_all add: is_raster_def)
  from x obtain p q where "x = img ! border p (height img) ! border q (width img)"
    by (auto simp: window_def)
  then show ?thesis
    using is_raster_sample [OF img border [OF h] border [OF w]] by simp
qed

lemma length_window: "length (window border img k i j) = k * k"
  by (simp add: window_def length_concat sum_list_triv comp_def)

lemma window_nonempty: "0 < k \<Longrightarrow> window border img k i j \<noteq> []"
  using length_window [of border img k i j] by auto

subsection \<open>The first maximum of a frequency table\<close>

lemma argmax_loop_inv:
  assumes "i = length ps" "bi < i" "bv = ps ! bi"
    "\<forall>j<i. ps ! j \<le> bv" "\<forall>j<bi. ps ! j < bv"
  shows "argmax_loop cs i bi bv < length (ps @ cs) \<and>
         (\<forall>j<length (ps @ cs). (ps @ cs) ! j \<le> (ps @ cs) ! argmax_loop cs i bi bv) \<and>
         (\<forall>j<argmax_loop cs i bi bv. (ps @ cs) ! j < (ps @ cs) ! argmax_loop cs i bi bv)"
  using assms
proof (induction cs arbitrary: ps i bi bv)
  case Nil
  then show ?case by simp
next
  case (Cons c cs)
  show ?case
  proof (cases "bv < c")
    case True
    have "argmax_loop cs (Suc i) i c < length ((ps @ [c]) @ cs) \<and>
         (\<forall>j<length ((ps @ [c]) @ cs). ((ps @ [c]) @ cs) ! j \<le> ((ps @ [c]) @ cs) ! argmax_loop cs (Suc i) i c) \<and>
         (\<forall>j<argmax_loop cs (Suc i) i c. ((ps @ [c]) @ cs) ! j < ((ps @ [c]) @ cs) ! argmax_loop cs (Suc i) i c)"
    proof (rule Cons.IH)
      show "Suc i = length (ps @ [c])" using Cons.prems by simp
      show "i < Suc i" by simp
      show "c = (ps @ [c]) ! i" using Cons.prems by simp
      show "\<forall>j<Suc i. (ps @ [c]) ! j \<le> c"
        using Cons.prems True by (auto simp: nth_append less_Suc_eq)
      show "\<forall>j<i. (ps @ [c]) ! j < c"
        using Cons.prems True by (auto simp: nth_append)
    qed
    with True show ?thesis by simp
  next
    case False
    have "argmax_loop cs (Suc i) bi bv < length ((ps @ [c]) @ cs) \<and>
         (\<forall>j<length ((ps @ [c]) @ cs). ((ps @ [c]) @ cs) ! j \<le> ((ps @ [c]) @ cs) ! argmax_loop cs (Suc i) bi bv) \<and>
         (\<forall>j<argmax_loop cs (Suc i) bi bv. ((ps @ [c]) @ cs) ! j < ((ps @ [c]) @ cs) ! argmax_loop cs (Suc i) bi bv)"
    proof (rule Cons.IH)
      show "Suc i = length (ps @ [c])" using Cons.prems by simp
      show "bi < Suc i" using Cons.prems by simp
      show "bv = (ps @ [c]) ! bi" using Cons.prems by (simp add: nth_append)
      show "\<forall>j<Suc i. (ps @ [c]) ! j \<le> bv"
        using Cons.prems False by (auto simp: nth_append less_Suc_eq)
      show "\<forall>j<bi. (ps @ [c]) ! j < bv"
        using Cons.prems by (auto simp: nth_append)
    qed
    with False show ?thesis by simp
  qed
qed

lemma argmax_first_max:
  assumes "argmax cs = Inr m"
  shows "m < length cs \<and> (\<forall>j<length cs. cs ! j \<le> cs ! m) \<and> (\<forall>j<m. cs ! j < cs ! m)"
proof (cases cs)
  case Nil
  with assms show ?thesis by (simp add: argmax_def)
next
  case (Cons c cs')
  have "argmax_loop cs' 1 0 c < length ([c] @ cs') \<and>
         (\<forall>j<length ([c] @ cs'). ([c] @ cs') ! j \<le> ([c] @ cs') ! argmax_loop cs' 1 0 c) \<and>
         (\<forall>j<argmax_loop cs' 1 0 c. ([c] @ cs') ! j < ([c] @ cs') ! argmax_loop cs' 1 0 c)"
    by (rule argmax_loop_inv) simp_all
  moreover have "m = argmax_loop cs' 1 0 c"
    using assms Cons by (simp add: argmax_def)
  ultimately show ?thesis using Cons by simp
qed

lemma bincount_table:
  assumes "xs \<noteq> []" "\<forall>x\<in>set xs. 0 \<le> x"
  shows "bincount xs = Inr (map (\<lambda>v. count_list xs (int v)) [0..<Suc (nat (Max (set xs)))])"
  using assms by (auto simp: bincount_def list_ex_iff)

lemma count_in_table:
  assumes "\<forall>x\<in>set xs. 0 \<le> x" "v \<in> set xs"
  shows "nat v < Suc (nat (Max (set xs)))"
proof -
  have "v \<le> Max (set xs)" using assms by simp
  then show ?thesis by simp
qed

lemma mode_value_spec:
  assumes ne: "xs \<noteq> []" and nonneg: "\<forall>x\<in>set xs. 0 \<le> x"
  shows "\<exists>m. mode_value xs = Inr m \<and> m \<in> set xs \<and>
           (\<forall>v. count_list xs v \<le> count_list xs m) \<and>
           (\<forall>v. count_list xs v = count_list xs m \<longrightarrow> m \<le> v)"
proof -
  define n where "n = Suc (nat (Max (set xs)))"
  define cs where "cs = map (\<lambda>v. count_list xs (int v)) [0..<n]"
  have bc: "bincount xs = Inr cs"
    using bincount_table [OF ne nonneg] by (simp add: cs_def n_def)
  have len: "length cs = n" by (simp add: cs_def)
  have nth: "\<And>v. v < n \<Longrightarrow> cs ! v = count_list xs (int v)" by (simp add: cs_def)
  have "cs \<noteq> []" using len by (auto simp: n_def)
  then obtain k where am: "argmax cs = Inr k"
    by (cases cs) (auto simp: argmax_def)
  from argmax_first_max [OF am]
  have k: "k < n" and mx: "\<forall>j<n. cs ! j \<le> cs ! k" and first: "\<forall>j<k. cs ! j < cs ! k"
    by (simp_all add: len)
  have mv: "mode_value xs = Inr (int k)"
    by (simp add: mode_value_def bc am)
  have idx: "\<And>v. v \<in> set xs \<Longrightarrow> nat v < n \<and> int (nat v) = v"
    using count_in_table [OF nonneg] nonneg by (auto simp: n_def)
  have le: "count_list xs v \<le> count_list xs (int k)" for v
  proof (cases "v \<in> set xs")
    case True
    then have "cs ! nat v \<le> cs ! k" using mx idx by blast
    then show ?thesis using nth [of "nat v"] nth [OF k] idx [OF True] by simp
  next
    case False
    then show ?thesis by (simp add: count_list_0_iff)
  qed
  obtain x where x: "x \<in> set xs" using ne by (cases xs) auto
  then have "0 < count_list xs x" using count_list_0_iff [of xs x] by auto
  with le [of x] have pos: "0 < count_list xs (int k)" by simp
  then have mem: "int k \<in> set xs" using count_list_0_iff [of xs "int k"] by auto
  have tie: "int k \<le> v" if eq: "count_list xs v = count_list xs (int k)" for v
  proof (rule ccontr)
    assume "\<not> int k \<le> v"
    then have lt: "v < int k" by simp
    from eq pos have vin: "v \<in> set xs" using count_list_0_iff [of xs v] by auto
    then have "nat v < k" using lt nonneg by auto
    then have "cs ! nat v < cs ! k" using first by blast
    moreover have "nat v < n" using idx [OF vin] by simp
    ultimately show False using nth [of "nat v"] nth [OF k] idx [OF vin] eq by simp
  qed
  show ?thesis using mv mem le tie by blast
qed

lemma mode_pixel:
  assumes img: "is_raster img" and k: "0 < k"
  shows "\<exists>m. bind_err (mode_value (window reflect_sym img k i j)) (\<lambda>v. Inr (v mod 256)) = Inr m \<and>
           m \<in> set (window reflect_sym img k i j) \<and>
           (\<forall>v. count_list (window reflect_sym img k i j) v \<le> count_list (window reflect_sym img k i j) m) \<and>
           (\<forall>v. count_list (window reflect_sym img k i j) v = count_list (window reflect_sym img k i j) m \<longrightarrow> m \<le> v)"
proof -
  let ?w = "window reflect_sym img k i j"
  have "0 \<le> x \<and> x \<le> 255" if "x \<in> set ?w" for x
    by (rule window_samples [OF img _ that]) (rule reflect_sym_less)
  then have range: "\<forall>x\<in>set ?w. 0 \<le> x \<and> x \<le> 255" by blast
  then have nonneg: "\<forall>x\<in>set ?w. 0 \<le> x" by blast
  from mode_value_spec [OF window_nonempty [OF k] nonneg]
  obtain m where m: "mode_value ?w = Inr m" "m \<in> set ?w"
    "\<forall>v. count_list ?w v \<le> count_list ?w m"
    "\<forall>v. count_list ?w v = count_list ?w m \<longrightarrow> m \<le> v"
    by blast
  from range m(2) have "m mod 256 = m" by auto
  with m show ?thesis by auto
qed

subsection \<open>Shapes of filtered rasters\<close>

lemma is_raster_rows:
  assumes "is_raster img" "i < height img"
  shows "length (img ! i) = width img"
proof -
  have "img ! i \<in> set img" using assms by (simp add: height_def)
  then show ?thesis using assms(1) by (auto simp: is_raster_def list_all_iff)
qed

lemma neighbourhood_filter_shape:
  assumes out: "neighbourhood_filter border f img k = Inr out" and img: "is_raster img"
  shows "height out = height img \<and> width out = width img \<and> same_shape out img"
proof -
  from out have len: "length out = height img"
    and rows: "\<And>i. i < height img \<Longrightarrow> length (out ! i) = width img"
    by (simp_all add: neighbourhood_filter_Inr_iff)
  have h: "0 < height img" using img by (simp add: is_raster_def)
  then obtain r rs where cons: "out = r # rs" using len by (cases out) auto
  have "length (out ! 0) = width img" using rows [OF h] .
  then have w: "width out = width img" using cons by (simp add: width_def)
  have "map length out = map length img"
  proof (rule nth_equalityI)
    show "length (map length out) = length (map length img)"
      using len by (simp add: height_def)
  next
    fix i assume "i < length (map length out)"
    then have i: "i < height img" using len by simp
    then show "map length out ! i = map length img ! i"
      using rows [OF i] is_raster_rows [OF img i] len by (simp add: height_def)
  qed
  then show ?thesis using len w by (simp add: same_shape_def height_def)
qed

lemma mean_filter_total:
  assumes "is_raster img" "0 < k"
  shows "\<exists>out. apply_mean_filter img k = Inr out \<and>
           height out = height img \<and> width out = width img \<and> same_shape out img"
proof -
  have ne: "\<not> empty_img img" using assms(1) by (simp add: is_raster_def empty_img_def)
  have "\<exists>out. neighbourhood_filter reflect101 mean_value img (nat k) = Inr out"
    by (rule neighbourhood_filter_total) (simp add: mean_value_def)
  then obtain out where out: "neighbourhood_filter reflect101 mean_value img (nat k) = Inr out" ..
  then have "apply_mean_filter img k = Inr out"
    using ne assms(2) by (simp add: apply_mean_filter_def cv2_blur_def)
  with neighbourhood_filter_shape [OF out assms(1)] show ?thesis by simp
qed

lemma median_filter_total:
  assumes "is_raster img" "1 < k" "odd k"
  shows "\<exists>out. apply_median_filter img k = Inr out \<and>
           height out = height img \<and> width out = width img \<and> same_shape out img"
proof -
  have ne: "\<not> empty_img img" using assms(1) by (simp add: is_raster_def empty_img_def)
  have "\<exists>out. neighbourhood_filter replicate_border median_value img (nat k) = Inr out"
    by (rule neighbourhood_filter_total) (simp add: median_value_def)
  then obtain out where out: "neighbourhood_filter replicate_border median_value img (nat k) = Inr out" ..
  then have "apply_median_filter img k = Inr out"
    using ne assms(2,3) by (simp add: apply_median_filter_def cv2_medianBlur_def)
  with neighbourhood_filter_shape [OF out assms(1)] show ?thesis by simp
qed

lemma mode_filter_total:
  assumes img: "is_raster img" and k: "0 < k"
  shows "\<exists>out. apply_mode_filter img k = Inr out \<and>
           height out = height img \<and> width out = width img \<and> same_shape out img"
proof -
  let ?f = "\<lambda>x. bind_err (mode_value x) (\<lambda>v. Inr (v mod 256))"
  have k': "0 < nat k" using k by simp
  have "\<exists>out. neighbourhood_filter reflect_sym ?f img (nat k) = Inr out"
    by (rule neighbourhood_filter_total) (use mode_pixel [OF img k'] in blast)
  then obtain out where out: "neighbourhood_filter reflect_sym ?f img (nat k) = Inr out" ..
  then have "apply_mode_filter img k = Inr out"
    using k by (simp add: apply_mode_filter_def generic_filter_def)
  with neighbourhood_filter_shape [OF out img] show ?thesis by simp
qed

subsection \<open>Sixteen-bit intermediates and saturated combinations\<close>

lemma nine_samples:
  assumes "length w = 9"
  obtains a b c d e f g h i where "w = [a, b, c, d, e, f, g, h, i :: int]"
  using assms by (auto simp: numeral_eq_Suc length_Suc_conv)

lemma laplacian_fits_16_bits:
  assumes "length w = 9" "\<forall>x\<in>set w. 0 \<le> x \<and> x \<le> 255"
  shows "- 2040 \<le> correlate (laplacian_kernel 3) w \<and> correlate (laplacian_kernel 3) w \<le> 2040"
proof -
  from assms(1) obtain a b c d e f g h i where w: "w = [a, b, c, d, e, f, g, h, i]"
    by (rule nine_samples)
  with assms(2) show ?thesis by (simp add: correlate_def laplacian_kernel_def)
qed

lemma sobel_x_fits_16_bits:
  assumes "length w = 9" "\<forall>x\<in>set w. 0 \<le> x \<and> x \<le> 255"
  shows "- 1020 \<le> correlate sobel_x_kernel w \<and> correlate sobel_x_kernel w \<le> 1020"
proof -
  from assms(1) obtain a b c d e f g h i where w: "w = [a, b, c, d, e, f, g, h, i]"
    by (rule nine_samples)
  with assms(2) show ?thesis by (simp add: correlate_def sobel_x_kernel_def)
qed

lemma sobel_y_fits_16_bits:
  assumes "length w = 9" "\<forall>x\<in>set w. 0 \<le> x \<and> x \<le> 255"
  shows "- 1020 \<le> correlate sobel_y_kernel w \<and> correlate sobel_y_kernel w \<le> 1020"
proof -
  from assms(1) obtain a b c d e f g h i where w: "w = [a, b, c, d, e, f, g, h, i]"
    by (rule nine_samples)
  with assms(2) show ?thesis by (simp add: correlate_def sobel_y_kernel_def)
qed

lemma filter2D_16S_exact:
  assumes img: "is_raster img"
    and fits: "\<And>w. length w = 9 \<Longrightarrow> \<forall>x\<in>set w. 0 \<le> x \<and> x \<le> 255 \<Longrightarrow>
                 - 32768 \<le> correlate kern w \<and> correlate kern w \<le> 32767"
  shows "\<exists>out. filter2D_16S img kern = Inr out \<and> same_shape out img \<and>
           (\<forall>i<height img. \<forall>j<width img.
              out ! i ! j = correlate kern (window reflect101 img 3 i j))"
proof -
  let ?f = "\<lambda>w. Inr (saturate_s16 (correlate kern w)) :: lib_error + int"
  have ne: "\<not> empty_img img" using img by (simp add: is_raster_def empty_img_def)
  have "\<exists>out. neighbourhood_filter reflect101 ?f img 3 = Inr out"
    by (rule neighbourhood_filter_total) simp
  then obtain out where out: "neighbourhood_filter reflect101 ?f img 3 = Inr out" ..
  have px: "out ! i ! j = correlate kern (window reflect101 img 3 i j)"
    if "i < height img" "j < width img" for i j
  proof -
    let ?w = "window reflect101 img 3 i j"
    have "0 \<le> x \<and> x \<le> 255" if "x \<in> set ?w" for x
      by (rule window_samples [OF img _ that]) (rule reflect101_less)
    then have "- 32768 \<le> correlate kern ?w \<and> correlate kern ?w \<le> 32767"
      using fits [of ?w] by (simp add: length_window)
    then have "saturate_s16 (correlate kern ?w) = correlate kern ?w"
      by (simp add: saturate_s16_def)
    moreover have "?f ?w = Inr (out ! i ! j)"
      using out that by (simp add: neighbourhood_filter_Inr_iff)
    ultimately show ?thesis by simp
  qed
  have "filter2D_16S img kern = Inr out" using out ne by (simp add: filter2D_16S_def)
  with px neighbourhood_filter_shape [OF out img] show ?thesis by blast
qed

lemma same_shape_nth:
  assumes "same_shape a b" "i < length b"
  shows "length a = length b \<and> length (a ! i) = length (b ! i)"
proof -
  from assms(1) have eq: "map length a = map length b" by (simp add: same_shape_def)
  then have len: "length a = length b" by (rule map_eq_imp_length_eq)
  have "map length a ! i = map length b ! i" using eq by simp
  then show ?thesis using len assms(2) by simp
qed

lemma convertScaleAbs_shape: "same_shape (convertScaleAbs a) a"
  by (simp add: same_shape_def convertScaleAbs_def comp_def)

lemma convertScaleAbs_nth:
  "i < length a \<Longrightarrow> j < length (a ! i) \<Longrightarrow> convertScaleAbs a ! i ! j = saturate_u8 \<bar>a ! i ! j\<bar>"
  by (simp add: convertScaleAbs_def)

lemma same_shape_trans: "same_shape a b \<Longrightarrow> same_shape b c \<Longrightarrow> same_shape a c"
  by (simp add: same_shape_def)

lemma same_shape_sym: "same_shape a b \<Longrightarrow> same_shape b a"
  by (simp add: same_shape_def)

lemma pointwise_Inr:
  assumes "same_shape a b"
  shows "\<exists>out. pointwise f a b = Inr out \<and> same_shape out a \<and>
           (\<forall>i<length a. \<forall>j<length (a ! i). out ! i ! j = f (a ! i ! j) (b ! i ! j))"
proof -
  let ?out = "map (\<lambda>(r, r'). map (\<lambda>(x, y). f x y) (zip r r')) (zip a b)"
  from assms have eq: "map length a = map length b" by (simp add: same_shape_def)
  then have len: "length a = length b" by (rule map_eq_imp_length_eq)
  have rows: "length (a ! i) = length (b ! i)" if "i < length a" for i
  proof -
    have "map length a ! i = map length b ! i" using eq by simp
    then show ?thesis using that len by simp
  qed
  have "map length ?out = map length a"
    by (rule nth_equalityI) (auto simp: len rows)
  then have "same_shape ?out a" by (simp add: same_shape_def)
  moreover have "\<forall>i<length a. \<forall>j<length (a ! i). ?out ! i ! j = f (a ! i ! j) (b ! i ! j)"
    using len rows by simp
  moreover have "pointwise f a b = Inr ?out" using assms by (simp add: pointwise_def)
  ultimately show ?thesis by blast
qed


lemma round_half_sum_range:
  assumes "0 \<le> a" "a \<le> 510"
  shows "0 \<le> round_div a 2 \<and> round_div a 2 \<le> 255"
proof -
  have "0 \<le> a div 2" "a div 2 \<le> 255" "a mod 2 = 0 \<or> a mod 2 = 1" using assms by auto
  moreover have "a div 2 < 255" if "a mod 2 = 1"
  proof -
    from that have "a \<noteq> 510" by auto
    with assms have "a \<le> 509" by simp
    then show ?thesis by simp
  qed
  ultimately show ?thesis by (auto simp: round_div_def Let_def)
qed

lemma laplacian_sharpen_pixels:
  assumes img: "is_raster img"
  shows "\<exists>lap out. cv2_Laplacian img = Inr lap \<and> apply_laplacian_filter img = Inr out \<and>
           same_shape out img \<and>
           (\<forall>i<height img. \<forall>j<width img.
              lap ! i ! j = correlate (laplacian_kernel 3) (window reflect101 img 3 i j) \<and>
              - 32768 \<le> lap ! i ! j \<and> lap ! i ! j \<le> 32767 \<and>
              out ! i ! j = max 0 (img ! i ! j - min 255 \<bar>lap ! i ! j\<bar>) \<and>
              0 \<le> out ! i ! j \<and> out ! i ! j \<le> 255)"
proof -
  have fits: "- 32768 \<le> correlate (laplacian_kernel 3) w \<and> correlate (laplacian_kernel 3) w \<le> 32767"
    if "length w = 9" "\<forall>x\<in>set w. 0 \<le> x \<and> x \<le> 255" for w
    using laplacian_fits_16_bits [OF that] by simp
  from filter2D_16S_exact [OF img fits] obtain lap where
    lap: "filter2D_16S img (laplacian_kernel 3) = Inr lap" "same_shape lap img"
    and lap_px: "\<And>i j. i < height img \<Longrightarrow> j < width img \<Longrightarrow>
                   lap ! i ! j = correlate (laplacian_kernel 3) (window reflect101 img 3 i j)"
    by blast
  have shape: "same_shape img (convertScaleAbs lap)"
    using lap(2) convertScaleAbs_shape [of lap]
    by (simp add: same_shape_def)
  from pointwise_Inr [OF shape, of "\<lambda>x y. saturate_u8 (x - y)"] obtain out where
    out: "cv2_subtract img (convertScaleAbs lap) = Inr out" "same_shape out img"
    and out_px: "\<And>i j. i < length img \<Longrightarrow> j < length (img ! i) \<Longrightarrow>
                   out ! i ! j = saturate_u8 (img ! i ! j - convertScaleAbs lap ! i ! j)"
    by (auto simp: cv2_subtract_def)
  have run: "apply_laplacian_filter img = Inr out"
    using lap(1) out(1) by (simp add: apply_laplacian_filter_def cv2_Laplacian_def)
  have "lap ! i ! j = correlate (laplacian_kernel 3) (window reflect101 img 3 i j) \<and>
        - 32768 \<le> lap ! i ! j \<and> lap ! i ! j \<le> 32767 \<and>
        out ! i ! j = max 0 (img ! i ! j - min 255 \<bar>lap ! i ! j\<bar>) \<and>
        0 \<le> out ! i ! j \<and> out ! i ! j \<le> 255"
    if ij: "i < height img" "j < width img" for i j
  proof -
    let ?w = "window reflect101 img 3 i j"
    have i: "i < length img" and j: "j < length (img ! i)"
      using ij is_raster_rows [OF img ij(1)] by (simp_all add: height_def)
    have li: "i < length lap" and lj: "j < length (lap ! i)"
      using same_shape_nth [OF lap(2) i] i j by simp_all
    have "0 \<le> x \<and> x \<le> 255" if "x \<in> set ?w" for x
      by (rule window_samples [OF img _ that]) (rule reflect101_less)
    then have b16: "- 32768 \<le> correlate (laplacian_kernel 3) ?w \<and>
                    correlate (laplacian_kernel 3) ?w \<le> 32767"
      using fits [of ?w] by (simp add: length_window)
    have sample: "0 \<le> img ! i ! j \<and> img ! i ! j \<le> 255"
      by (rule is_raster_sample [OF img ij])
    have "out ! i ! j = saturate_u8 (img ! i ! j - saturate_u8 \<bar>lap ! i ! j\<bar>)"
      using out_px [OF i j] convertScaleAbs_nth [OF li lj] by simp
    then have o: "out ! i ! j = max 0 (img ! i ! j - min 255 \<bar>lap ! i ! j\<bar>) \<and>
               0 \<le> out ! i ! j \<and> out ! i ! j \<le> 255"
      using sample by (auto simp: saturate_u8_def)
    have e: "lap ! i ! j = correlate (laplacian_kernel 3) ?w" by (rule lap_px [OF ij])
    have b: "- 32768 \<le> lap ! i ! j \<and> lap ! i ! j \<le> 32767" using b16 e by simp
    show ?thesis using e b o by blast
  qed
  moreover have "cv2_Laplacian img = Inr lap" using lap(1) by (simp add: cv2_Laplacian_def)
  ultimately show ?thesis using run out(2) by blast
qed

lemma sobel_edge_pixels:
  assumes img: "is_raster img"
  shows "\<exists>gx gy out. cv2_Sobel img 1 0 = Inr gx \<and> cv2_Sobel img 0 1 = Inr gy \<and>
           apply_sobel_filter img = Inr out \<and> same_shape out img \<and>
           (\<forall>i<height img. \<forall>j<width img.
              gx ! i ! j = correlate sobel_x_kernel (window reflect101 img 3 i j) \<and>
              gy ! i ! j = correlate sobel_y_kernel (window reflect101 img 3 i j) \<and>
              - 32768 \<le> gx ! i ! j \<and> gx ! i ! j \<le> 32767 \<and>
              - 32768 \<le> gy ! i ! j \<and> gy ! i ! j \<le> 32767 \<and>
              out ! i ! j = round_div (min 255 \<bar>gx ! i ! j\<bar> + min 255 \<bar>gy ! i ! j\<bar>) 2 \<and>
              0 \<le> out ! i ! j \<and> out ! i ! j \<le> 255)"
proof -
  have fits_x: "- 32768 \<le> correlate sobel_x_kernel w \<and> correlate sobel_x_kernel w \<le> 32767"
    if "length w = 9" "\<forall>x\<in>set w. 0 \<le> x \<and> x \<le> 255" for w
    using sobel_x_fits_16_bits [OF that] by simp
  have fits_y: "- 32768 \<le> correlate sobel_y_kernel w \<and> correlate sobel_y_kernel w \<le> 32767"
    if "length w = 9" "\<forall>x\<in>set w. 0 \<le> x \<and> x \<le> 255" for w
    using sobel_y_fits_16_bits [OF that] by simp
  from filter2D_16S_exact [OF img fits_x] obtain gx where
    gx: "filter2D_16S img sobel_x_kernel = Inr gx" "same_shape gx img"
    and gx_px: "\<And>i j. i < height img \<Longrightarrow> j < width img \<Longrightarrow>
                  gx ! i ! j = correlate sobel_x_kernel (window reflect101 img 3 i j)"
    by blast
  from filter2D_16S_exact [OF img fits_y] obtain gy where
    gy: "filter2D_16S img sobel_y_kernel = Inr gy" "same_shape gy img"
    and gy_px: "\<And>i j. i < height img \<Longrightarrow> j < width img \<Longrightarrow>
                  gy ! i ! j = correlate sobel_y_kernel (window reflect101 img 3 i j)"
    by blast
  have shape: "same_shape (convertScaleAbs gx) (convertScaleAbs gy)"
    using gx(2) gy(2) convertScaleAbs_shape [of gx] convertScaleAbs_shape [of gy]
    by (simp add: same_shape_def)
  have ax: "same_shape (convertScaleAbs gx) img"
    using gx(2) convertScaleAbs_shape [of gx] by (simp add: same_shape_def)
  from pointwise_Inr [OF shape, of "\<lambda>x y. saturate_u8 (round_div (x + y) 2)"] obtain out where
    out: "cv2_addWeighted_half (convertScaleAbs gx) (convertScaleAbs gy) = Inr out"
      "same_shape out (convertScaleAbs gx)"
    and out_px: "\<And>i j. i < length (convertScaleAbs gx) \<Longrightarrow> j < length (convertScaleAbs gx ! i) \<Longrightarrow>
                   out ! i ! j = saturate_u8 (round_div (convertScaleAbs gx ! i ! j + convertScaleAbs gy ! i ! j) 2)"
    by (auto simp: cv2_addWeighted_half_def)
  have out_shape: "same_shape out img" using out(2) ax by (rule same_shape_trans)
  have sx: "cv2_Sobel img 1 0 = Inr gx" and sy: "cv2_Sobel img 0 1 = Inr gy"
    using gx(1) gy(1) by (simp_all add: cv2_Sobel_def)
  have run: "apply_sobel_filter img = Inr out"
    using sx sy out(1) by (simp add: apply_sobel_filter_def)
  have "gx ! i ! j = correlate sobel_x_kernel (window reflect101 img 3 i j) \<and>
        gy ! i ! j = correlate sobel_y_kernel (window reflect101 img 3 i j) \<and>
        - 32768 \<le> gx ! i ! j \<and> gx ! i ! j \<le> 32767 \<and>
        - 32768 \<le> gy ! i ! j \<and> gy ! i ! j \<le> 32767 \<and>
        out ! i ! j = round_div (min 255 \<bar>gx ! i ! j\<bar> + min 255 \<bar>gy ! i ! j\<bar>) 2 \<and>
        0 \<le> out ! i ! j \<and> out ! i ! j \<le> 255"
    if ij: "i < height img" "j < width img" for i j
  proof -
    let ?w = "window reflect101 img 3 i j"
    have i: "i < length img" and j: "j < length (img ! i)"
      using ij is_raster_rows [OF img ij(1)] by (simp_all add: height_def)
    have xi: "i < length gx" and xj: "j < length (gx ! i)"
      using same_shape_nth [OF gx(2) i] i j by simp_all
    have yi: "i < length gy" and yj: "j < length (gy ! i)"
      using same_shape_nth [OF gy(2) i] i j by simp_all
    have ci: "i < length (convertScaleAbs gx)" and cj: "j < length (convertScaleAbs gx ! i)"
      using same_shape_nth [OF ax i] i j by simp_all
    have range: "\<forall>x\<in>set ?w. 0 \<le> x \<and> x \<le> 255"
    proof
      fix x assume x: "x \<in> set ?w"
      show "0 \<le> x \<and> x \<le> 255"
        by (rule window_samples [OF img _ x]) (rule reflect101_less)
    qed
    have bx: "- 32768 \<le> correlate sobel_x_kernel ?w \<and> correlate sobel_x_kernel ?w \<le> 32767"
      using fits_x [of ?w] range by (simp add: length_window)
    have by': "- 32768 \<le> correlate sobel_y_kernel ?w \<and> correlate sobel_y_kernel ?w \<le> 32767"
      using fits_y [of ?w] range by (simp add: length_window)
    define a where "a = min 255 \<bar>gx ! i ! j\<bar> + min 255 \<bar>gy ! i ! j\<bar>"
    have a: "0 \<le> a" "a \<le> 510" by (simp_all add: a_def)
    have "convertScaleAbs gx ! i ! j = min 255 \<bar>gx ! i ! j\<bar>"
         "convertScaleAbs gy ! i ! j = min 255 \<bar>gy ! i ! j\<bar>"
      using convertScaleAbs_nth [OF xi xj] convertScaleAbs_nth [OF yi yj]
      by (auto simp: saturate_u8_def)
    then have "out ! i ! j = saturate_u8 (round_div a 2)"
      using out_px [OF ci cj] by (simp add: a_def)
    then have "out ! i ! j = round_div a 2 \<and> 0 \<le> out ! i ! j \<and> out ! i ! j \<le> 255"
      using round_half_sum_range [OF a] by (auto simp: saturate_u8_def)
    then have o: "out ! i ! j = round_div (min 255 \<bar>gx ! i ! j\<bar> + min 255 \<bar>gy ! i ! j\<bar>) 2 \<and>
                  0 \<le> out ! i ! j \<and> out ! i ! j \<le> 255"
      unfolding a_def .
    have ex: "gx ! i ! j = correlate sobel_x_kernel ?w" by (rule gx_px [OF ij])
    have ey: "gy ! i ! j = correlate sobel_y_kernel ?w" by (rule gy_px [OF ij])
    have b: "- 32768 \<le> gx ! i ! j \<and> gx ! i ! j \<le> 32767"
            "- 32768 \<le> gy ! i ! j \<and> gy ! i ! j \<le> 32767"
      using bx by' ex ey by simp_all
    show ?thesis using ex ey b o by blast
  qed
  then show ?thesis using sx sy run out_shape by blast
qed

subsection \<open>The results dictionary and the session invariant\<close>

lemma keys_dict_set:
  "map fst (dict_set d k v) = (if k \<in> fst ` set d then map fst d else map fst d @ [k])"
  by (induction d) (fastforce simp: image_iff)+

lemma distinct_dict_set:
  "distinct (map fst d) \<Longrightarrow> distinct (map fst (dict_set d k v))"
  by (auto simp: keys_dict_set)

lemma dict_get_dict_set:
  "dict_get (dict_set d k v) k' = (if k' = k then Some v else dict_get d k')"
  by (induction d) auto

lemma dict_get_Some_mem: "dict_get d k = Some v \<Longrightarrow> (k, v) \<in> set d"
  by (induction d) (auto split: if_splits)

lemma count_other_keys:
  assumes "distinct (map fst d)" "dict_get d k = Some v"
  shows "length (filter (\<lambda>(name, x). name \<noteq> k) d) = length d - 1"
  using assms
proof (induction d)
  case Nil
  then show ?case by simp
next
  case (Cons e d)
  obtain k' v' where e: "e = (k', v')" by (cases e)
  show ?case
  proof (cases "k' = k")
    case True
    then have "k \<notin> fst ` set d" using Cons.prems(1) e by auto
    then have "filter (\<lambda>(name, x). name \<noteq> k) d = d"
      by (auto simp: filter_id_conv image_iff)
    then show ?thesis using True e by simp
  next
    case False
    then have get: "dict_get d k = Some v" using Cons.prems(2) e by simp
    then have "d \<noteq> []" by auto
    then have "0 < length d" by simp
    moreover have "length (filter (\<lambda>(name, x). name \<noteq> k) d) = length d - 1"
      using Cons.IH Cons.prems(1) get by simp
    ultimately show ?thesis using False e by simp
  qed
qed

lemma consistent_init: "consistent init_session"
  by (simp add: consistent_def init_session_def)

lemma reset_image_consistent: "consistent s \<Longrightarrow> consistent (snd (reset_image s))"
  by (cases "original_img s") (auto simp: reset_image_def consistent_def)

lemma upload_image_consistent: "consistent s \<Longrightarrow> consistent (snd (upload_image imread path s))"
  by (auto simp: upload_image_def reset_image_def consistent_def split: option.splits)

lemma add_noise_consistent: "consistent s \<Longrightarrow> consistent (snd (add_noise rn s))"
  by (auto simp: add_noise_def consistent_def Let_def distinct_dict_set dict_get_dict_set
      split: option.splits)

lemma dispatch_known_method:
  assumes "(if m = ''Mean Filter'' then Some a
            else if m = ''Median Filter'' then Some b
            else if m = ''Mode Filter'' then Some c
            else if m = ''Laplacian Sharpening'' then Some d
            else if m = ''Sobel Edge Detection'' then Some e
            else None) = Some x"
  shows "m \<in> set [''Mean Filter'', ''Median Filter'', ''Mode Filter'',
                   ''Laplacian Sharpening'', ''Sobel Edge Detection'']"
  using assms by (simp split: if_splits)

lemma title_not_Original:
  assumes "m \<in> set [''Mean Filter'', ''Median Filter'', ''Mode Filter'',
                      ''Laplacian Sharpening'', ''Sobel Edge Detection'']"
  shows "(if smooth then ''Smoothed then '' else []) @ m \<noteq> ''Original''"
  using assms by auto

lemma apply_method_effect:
  "snd (apply_method s) = s \<and>
     (fst (apply_method s) = Warned NoImageLoaded \<or> fst (apply_method s) = Returned \<or>
      (\<exists>e. fst (apply_method s) = Raised e)) \<or>
   (\<exists>title out. title \<noteq> ''Original'' \<and> processing_base_img s \<noteq> None \<and>
      apply_method s = (Done, s\<lparr>results := dict_set (results s) title out\<rparr>))"
proof (cases "processing_base_img s")
  case None
  then show ?thesis by (simp add: apply_method_def)
next
  case (Some base)
  define smooth where "smooth \<longleftrightarrow> smooth_before_sharp_var s \<noteq> 0 \<and>
     method_var s \<in> set [''Laplacian Sharpening'', ''Sobel Edge Detection'']"
  define pre where "pre = (if smooth then apply_median_filter base 5 else Inr base)"
  define dispatch where "dispatch = (\<lambda>img_in.
     if method_var s = ''Mean Filter'' then Some (apply_mean_filter img_in (kernel_size_var s))
     else if method_var s = ''Median Filter'' then Some (apply_median_filter img_in (kernel_size_var s))
     else if method_var s = ''Mode Filter'' then Some (apply_mode_filter img_in (kernel_size_var s))
     else if method_var s = ''Laplacian Sharpening'' then Some (apply_laplacian_filter img_in)
     else if method_var s = ''Sobel Edge Detection'' then Some (apply_sobel_filter img_in)
     else None)"
  have unfold: "apply_method s =
     (case pre of
        Inl e \<Rightarrow> (Raised e, s)
      | Inr img_in \<Rightarrow>
          (case dispatch img_in of
             None \<Rightarrow> (Returned, s)
           | Some (Inl e) \<Rightarrow> (Raised e, s)
           | Some (Inr enhanced) \<Rightarrow>
               (Done, s\<lparr>results := dict_set (results s)
                  ((if smooth then ''Smoothed then '' else []) @ method_var s) enhanced\<rparr>)))"
    by (simp only: apply_method_def Let_def smooth_def pre_def dispatch_def Some option.case)
  show ?thesis
  proof (cases pre)
    case (Inl e)
    then show ?thesis using unfold by simp
  next
    case (Inr img_in)
    show ?thesis
    proof (cases "dispatch img_in")
      case None
      then show ?thesis using unfold Inr by simp
    next
      case (Some r)
      show ?thesis
      proof (cases r)
        case (Inl e)
        then show ?thesis using unfold Inr Some by simp
      next
        case out: (Inr enhanced)
        have "method_var s \<in> set [''Mean Filter'', ''Median Filter'', ''Mode Filter'',
                   ''Laplacian Sharpening'', ''Sobel Edge Detection'']"
          by (rule dispatch_known_method) (use Some in \<open>simp add: dispatch_def\<close>)
        then have "(if smooth then ''Smoothed then '' else []) @ method_var s \<noteq> ''Original''"
          by (rule title_not_Original)
        moreover have "apply_method s = (Done, s\<lparr>results := dict_set (results s)
                  ((if smooth then ''Smoothed then '' else []) @ method_var s) enhanced\<rparr>)"
          using unfold Inr Some out by simp
        ultimately show ?thesis using \<open>processing_base_img s = Some base\<close> by blast
      qed
    qed
  qed
qed

lemma apply_method_consistent: "consistent s \<Longrightarrow> consistent (snd (apply_method s))"
  using apply_method_effect [of s]
  by (auto simp: consistent_def distinct_dict_set dict_get_dict_set split: option.splits)

lemma step_consistent: "consistent s \<Longrightarrow> consistent (snd (step a s))"
proof (cases a)
  case (Upload imread path)
  then show ?thesis if "consistent s" using that by (simp add: upload_image_consistent)
next
  case Reset
  then show ?thesis if "consistent s" using that by (simp add: reset_image_consistent)
next
  case (AddNoise rn)
  then show ?thesis if "consistent s" using that by (simp add: add_noise_consistent)
next
  case ApplyMethod
  then show ?thesis if "consistent s" using that by (simp add: apply_method_consistent)
next
  case SaveReport
  then show ?thesis if "consistent s" using that by (simp split: sum.splits)
next
  case (SlideKernel val)
  then show ?thesis if "consistent s"
    using that by (auto simp: update_kernel_label_def consistent_def Let_def split: option.splits)
next
  case (SelectNoise v)
  then show ?thesis if "consistent s" using that by (auto simp: consistent_def split: option.splits)
next
  case (SelectMethod v)
  then show ?thesis if "consistent s" using that by (auto simp: consistent_def split: option.splits)
next
  case (SetSmooth v)
  then show ?thesis if "consistent s" using that by (auto simp: consistent_def split: option.splits)
qed

lemma run_consistent: "consistent s \<Longrightarrow> consistent (run acts s)"
  by (induction acts arbitrary: s) (simp_all add: step_consistent)

lemma step_keeps_original: "\<not> loads a \<Longrightarrow> original_img (snd (step a s)) = original_img s"
proof (cases a)
  case Reset
  then show ?thesis by (simp add: reset_image_def split: option.splits)
next
  case (AddNoise rn)
  then show ?thesis by (simp add: add_noise_def Let_def split: option.splits)
next
  case ApplyMethod
  then show ?thesis using apply_method_effect [of s] by auto
next
  case SaveReport
  then show ?thesis by (simp split: sum.splits)
next
  case (SlideKernel val)
  then show ?thesis by (simp add: update_kernel_label_def Let_def)
qed simp_all

lemma run_keeps_original:
  "\<forall>a\<in>set acts. \<not> loads a \<Longrightarrow> original_img (run acts s) = original_img s"
  by (induction acts arbitrary: s) (simp_all add: step_keeps_original)

subsection \<open>The branches of \<open>apply_method\<close>\<close>

lemma median_filter_raster:
  assumes img: "is_raster img" and k: "1 < k" "odd k"
  shows "\<exists>out. apply_median_filter img k = Inr out \<and> is_raster out"
proof -
  have ne: "\<not> empty_img img" using img by (simp add: is_raster_def empty_img_def)
  have "\<exists>out. neighbourhood_filter replicate_border median_value img (nat k) = Inr out"
    by (rule neighbourhood_filter_total) (simp add: median_value_def)
  then obtain out where out: "neighbourhood_filter replicate_border median_value img (nat k) = Inr out" ..
  then have run: "apply_median_filter img k = Inr out"
    using ne k by (simp add: apply_median_filter_def cv2_medianBlur_def)
  from neighbourhood_filter_shape [OF out img]
  have h: "height out = height img" and w: "width out = width img" by simp_all
  from out have rows: "\<And>i. i < height img \<Longrightarrow> length (out ! i) = width img"
    and px: "\<And>i j. i < height img \<Longrightarrow> j < width img \<Longrightarrow>
               median_value (window replicate_border img (nat k) i j) = Inr (out ! i ! j)"
    by (simp_all add: neighbourhood_filter_Inr_iff)
  have sample: "0 \<le> out ! i ! j \<and> out ! i ! j \<le> 255"
    if ij: "i < height img" "j < width img" for i j
  proof -
    let ?w = "window replicate_border img (nat k) i j"
    have "0 < length ?w" using k by (simp add: length_window)
    then have "length ?w div 2 < length (sort ?w)" by simp
    then have "sort ?w ! (length ?w div 2) \<in> set (sort ?w)" by (rule nth_mem)
    then have mem: "out ! i ! j \<in> set ?w" using px [OF ij] by (simp add: median_value_def)
    show ?thesis by (rule window_samples [OF img _ mem]) (rule replicate_border_less)
  qed
  have "list_all (\<lambda>r. length r = width out \<and> list_all (\<lambda>p. 0 \<le> p \<and> p \<le> 255) r) out"
    unfolding list_all_iff
  proof
    fix r assume "r \<in> set out"
    then obtain i where i: "i < length out" "r = out ! i" by (auto simp: in_set_conv_nth)
    then have i': "i < height img" using h by (simp add: height_def)
    have len: "length r = width img" using rows [OF i'] i by simp
    have "\<forall>p\<in>set r. 0 \<le> p \<and> p \<le> 255"
    proof
      fix p assume "p \<in> set r"
      then obtain j where j: "j < length r" "p = r ! j" by (auto simp: in_set_conv_nth)
      then show "0 \<le> p \<and> p \<le> 255" using sample [OF i', of j] len i by simp
    qed
    then show "length r = width out \<and> (\<forall>p\<in>set r. 0 \<le> p \<and> p \<le> 255)"
      using len w by simp
  qed
  then have "is_raster out" using img h w by (simp add: is_raster_def)
  with run show ?thesis by blast
qed

lemma apply_method_plain:
  assumes base: "processing_base_img s = Some base"
    and plain: "smooth_before_sharp_var s = 0 \<or>
                method_var s \<notin> set [''Laplacian Sharpening'', ''Sobel Edge Detection'']"
  shows "apply_method s =
     (case (if method_var s = ''Mean Filter'' then Some (apply_mean_filter base (kernel_size_var s))
            else if method_var s = ''Median Filter'' then Some (apply_median_filter base (kernel_size_var s))
            else if method_var s = ''Mode Filter'' then Some (apply_mode_filter base (kernel_size_var s))
            else if method_var s = ''Laplacian Sharpening'' then Some (apply_laplacian_filter base)
            else if method_var s = ''Sobel Edge Detection'' then Some (apply_sobel_filter base)
            else None) of
        None \<Rightarrow> (Returned, s)
      | Some (Inl e) \<Rightarrow> (Raised e, s)
      | Some (Inr enhanced) \<Rightarrow>
          (Done, s\<lparr>results := dict_set (results s) (method_var s) enhanced\<rparr>))"
proof -
  have "\<not> (smooth_before_sharp_var s \<noteq> 0 \<and>
            method_var s \<in> set [''Laplacian Sharpening'', ''Sobel Edge Detection''])"
    using plain by blast
  then show ?thesis
    unfolding apply_method_def Let_def base option.case by (simp only: if_False sum.case append_Nil)
qed

lemma apply_method_smoothed:
  assumes base: "processing_base_img s = Some base"
    and smooth: "smooth_before_sharp_var s \<noteq> 0"
      "method_var s \<in> set [''Laplacian Sharpening'', ''Sobel Edge Detection'']"
    and pre: "apply_median_filter base 5 = Inr smoothed"
  shows "apply_method s =
     (case (if method_var s = ''Laplacian Sharpening'' then apply_laplacian_filter smoothed
            else apply_sobel_filter smoothed) of
        Inl e \<Rightarrow> (Raised e, s)
      | Inr enhanced \<Rightarrow>
          (Done, s\<lparr>results := dict_set (results s) (''Smoothed then '' @ method_var s) enhanced\<rparr>))"
proof -
  have c: "smooth_before_sharp_var s \<noteq> 0 \<and>
            method_var s \<in> set [''Laplacian Sharpening'', ''Sobel Edge Detection'']"
    using smooth by blast
  have "apply_method s =
     (case (if method_var s = ''Mean Filter'' then Some (apply_mean_filter smoothed (kernel_size_var s))
            else if method_var s = ''Median Filter'' then Some (apply_median_filter smoothed (kernel_size_var s))
            else if method_var s = ''Mode Filter'' then Some (apply_mode_filter smoothed (kernel_size_var s))
            else if method_var s = ''Laplacian Sharpening'' then Some (apply_laplacian_filter smoothed)
            else if method_var s = ''Sobel Edge Detection'' then Some (apply_sobel_filter smoothed)
            else None) of
        None \<Rightarrow> (Returned, s)
      | Some (Inl e) \<Rightarrow> (Raised e, s)
      | Some (Inr enhanced) \<Rightarrow>
          (Done, s\<lparr>results := dict_set (results s) (''Smoothed then '' @ method_var s) enhanced\<rparr>))"
    unfolding apply_method_def Let_def base option.case
    by (simp only: c if_True pre sum.case simp_thms)
  then show ?thesis using smooth(2) by (auto split: sum.splits)
qed

subsection \<open>The kernel size slider\<close>

lemma py_round_cases: "py_round x = \<lfloor>x\<rfloor> \<or> py_round x = \<lfloor>x\<rfloor> + 1"
  by (simp add: py_round_def Let_def)

lemma py_round_of_int: "py_round (of_int n) = n"
  by (simp add: py_round_def Let_def)

lemma py_round_slider:
  assumes "3 \<le> val" "val \<le> 15"
  shows "3 \<le> py_round val \<and> py_round val \<le> 15"
proof -
  have "of_int 3 \<le> val" using assms(1) by simp
  then have lo: "3 \<le> \<lfloor>val\<rfloor>" by (simp only: le_floor_iff)
  have hi: "py_round val \<le> 15"
  proof (cases "val = 15")
    case True
    then have "val = of_int 15" by simp
    then have "py_round val = 15" by (simp only: py_round_of_int)
    then show ?thesis by simp
  next
    case False
    then have "val < of_int 15" using assms(2) by simp
    then have "\<lfloor>val\<rfloor> < 15" by (simp only: floor_less_iff)
    then show ?thesis using py_round_cases [of val] by auto
  qed
  from lo py_round_cases [of val] have "3 \<le> py_round val" by auto
  with hi show ?thesis by simp
qed

lemma force_odd_range:
  fixes r :: int
  assumes "3 \<le> r" "r \<le> 15"
  shows "odd (r + (if r mod 2 = 0 then 1 else 0)) \<and>
         3 \<le> r + (if r mod 2 = 0 then 1 else 0) \<and>
         r + (if r mod 2 = 0 then 1 else 0) \<le> 15"
proof (cases "r mod 2 = 0")
  case True
  then have "even r" by presburger
  moreover from True have "r \<noteq> 15" by presburger
  ultimately show ?thesis using True assms by simp
next
  case False
  then have "odd r" by presburger
  then show ?thesis using False assms by simp
qed

lemma update_kernel_label_odd:
  assumes "3 \<le> val" "val \<le> 15"
  shows "fst (update_kernel_label val s) = Done \<and>
         odd (kernel_size_var (snd (update_kernel_label val s))) \<and>
         3 \<le> kernel_size_var (snd (update_kernel_label val s)) \<and>
         kernel_size_var (snd (update_kernel_label val s)) \<le> 15"
proof -
  define k where "k = py_round val + (if py_round val mod 2 = 0 then 1 else 0)"
  have e: "update_kernel_label val s = (Done, s\<lparr>kernel_size_var := k\<rparr>)"
    unfolding update_kernel_label_def Let_def k_def ..
  have "odd k \<and> 3 \<le> k \<and> k \<le> 15"
    unfolding k_def using py_round_slider [OF assms] by (intro force_odd_range) simp_all
  then show ?thesis unfolding e by simp
qed

section \<open>The mode filter (claim C1)\<close>

text \<open>
  Claim C1, as amended. For every k-by-k neighbourhood of a valid raster the mode filter
  succeeds and selects a value of the neighbourhood that no other value exceeds in
  frequency, and that is the smallest of the values of that frequency (the first maximum
  of the frequency table). A 3-by-3 neighbourhood that contains 1 twice and 2 twice
  yields 1 exactly when no value occurs in it more often than 1 and 0 occurs less often
  than 1; the other five cells decide that.
\<close>

theorem mode_filter_first_maximum:
  "(is_raster img \<and> 0 < k \<longrightarrow>
      (\<exists>out. apply_mode_filter img k = Inr out \<and> height out = height img \<and>
         (\<forall>i<height img. length (out ! i) = width img \<and>
            (\<forall>j<width img.
               out ! i ! j \<in> set (window reflect_sym img (nat k) i j) \<and>
               (\<forall>v. count_list (window reflect_sym img (nat k) i j) v
                      \<le> count_list (window reflect_sym img (nat k) i j) (out ! i ! j)) \<and>
               (\<forall>v. count_list (window reflect_sym img (nat k) i j) v
                      = count_list (window reflect_sym img (nat k) i j) (out ! i ! j)
                    \<longrightarrow> out ! i ! j \<le> v))))) \<and>
   (length w = 9 \<and> 2 \<le> count_list w 1 \<and> 2 \<le> count_list w 2 \<and> list_all (\<lambda>x. 0 \<le> x) w \<longrightarrow>
      (mode_value w = Inr 1 \<longleftrightarrow>
         (\<forall>v. count_list w v \<le> count_list w 1) \<and> count_list w 0 < count_list w 1))"
proof (intro conjI impI)
  assume a: "is_raster img \<and> 0 < k"
  then have img: "is_raster img" and k: "0 < nat k" by simp_all
  let ?f = "\<lambda>x. bind_err (mode_value x) (\<lambda>v. Inr (v mod 256))"
  have "\<exists>out. neighbourhood_filter reflect_sym ?f img (nat k) = Inr out"
    by (rule neighbourhood_filter_total) (use mode_pixel [OF img k] in blast)
  then obtain out where out: "neighbourhood_filter reflect_sym ?f img (nat k) = Inr out" ..
  then have run: "apply_mode_filter img k = Inr out"
    using a by (simp add: apply_mode_filter_def generic_filter_def)
  from out have shape: "length out = height img"
    and px: "\<And>i j. i < height img \<Longrightarrow> j < width img \<Longrightarrow>
               length (out ! i) = width img \<and> ?f (window reflect_sym img (nat k) i j) = Inr (out ! i ! j)"
    by (simp_all add: neighbourhood_filter_Inr_iff)
  from out have rows: "\<And>i. i < height img \<Longrightarrow> length (out ! i) = width img"
    by (simp add: neighbourhood_filter_Inr_iff)
  have "out ! i ! j \<in> set (window reflect_sym img (nat k) i j) \<and>
        (\<forall>v. count_list (window reflect_sym img (nat k) i j) v
               \<le> count_list (window reflect_sym img (nat k) i j) (out ! i ! j)) \<and>
        (\<forall>v. count_list (window reflect_sym img (nat k) i j) v
               = count_list (window reflect_sym img (nat k) i j) (out ! i ! j)
             \<longrightarrow> out ! i ! j \<le> v)"
    if "i < height img" "j < width img" for i j
  proof -
    from mode_pixel [OF img k, of i j] obtain m where
      m: "?f (window reflect_sym img (nat k) i j) = Inr m"
         "m \<in> set (window reflect_sym img (nat k) i j)"
         "\<forall>v. count_list (window reflect_sym img (nat k) i j) v
               \<le> count_list (window reflect_sym img (nat k) i j) m"
         "\<forall>v. count_list (window reflect_sym img (nat k) i j) v
               = count_list (window reflect_sym img (nat k) i j) m \<longrightarrow> m \<le> v"
      by blast
    from px [OF that] m(1) have "out ! i ! j = m" by simp
    with m show ?thesis by simp
  qed
  with run shape rows
  show "\<exists>out. apply_mode_filter img k = Inr out \<and> height out = height img \<and>
         (\<forall>i<height img. length (out ! i) = width img \<and>
            (\<forall>j<width img.
               out ! i ! j \<in> set (window reflect_sym img (nat k) i j) \<and>
               (\<forall>v. count_list (window reflect_sym img (nat k) i j) v
                      \<le> count_list (window reflect_sym img (nat k) i j) (out ! i ! j)) \<and>
               (\<forall>v. count_list (window reflect_sym img (nat k) i j) v
                      = count_list (window reflect_sym img (nat k) i j) (out ! i ! j)
                    \<longrightarrow> out ! i ! j \<le> v)))"
    by (auto simp: height_def)
next
  assume a: "length w = 9 \<and> 2 \<le> count_list w 1 \<and> 2 \<le> count_list w 2 \<and> list_all (\<lambda>x. 0 \<le> x) w"
  then have ne: "w \<noteq> []" and nonneg: "\<forall>x\<in>set w. 0 \<le> x"
    by (auto simp: list_all_iff)
  from mode_value_spec [OF ne nonneg] obtain m where
    m: "mode_value w = Inr m" "\<forall>v. count_list w v \<le> count_list w m"
       "\<forall>v. count_list w v = count_list w m \<longrightarrow> m \<le> v" "m \<in> set w"
    by blast
  show "mode_value w = Inr 1 \<longleftrightarrow>
         (\<forall>v. count_list w v \<le> count_list w 1) \<and> count_list w 0 < count_list w 1"
  proof
    assume "mode_value w = Inr 1"
    with m(1) have m1: "m = 1" by simp
    have "count_list w 0 \<noteq> count_list w 1" using m(3) m1 by auto
    moreover have "count_list w 0 \<le> count_list w 1" using m(2) m1 by simp
    ultimately have "count_list w 0 < count_list w 1" by simp
    then show "(\<forall>v. count_list w v \<le> count_list w 1) \<and> count_list w 0 < count_list w 1"
      using m(2) m1 by simp
  next
    assume b: "(\<forall>v. count_list w v \<le> count_list w 1) \<and> count_list w 0 < count_list w 1"
    then have "count_list w 1 = count_list w m" using m(2) by (simp add: le_antisym)
    then have "m \<le> 1" using m(3) by simp
    moreover have "0 \<le> m" using m(4) nonneg by simp
    moreover have "m \<noteq> 0"
    proof
      assume "m = 0"
      then have "count_list w 1 \<le> count_list w 0" using m(2) by simp
      with b show False by simp
    qed
    ultimately have "m = 1" by simp
    with m(1) show "mode_value w = Inr 1" by simp
  qed
qed

text \<open>Witness for C1: a 3-by-3 raster, and a neighbourhood in which 1 and 2 tie at two.\<close>

theorem mode_filter_first_maximum_witness:
  "is_raster [[1, 1, 2], [2, 5, 5], [5, 9, 9]] \<and>
   (\<exists>out. apply_mode_filter [[1, 1, 2], [2, 5, 5], [5, 9, 9]] 3 = Inr out \<and> height out = 3 \<and>
      out ! 1 ! 1 \<in> set (window reflect_sym [[1, 1, 2], [2, 5, 5], [5, 9, 9]] 3 1 1)) \<and>
   mode_value [1, 7, 2, 1, 9, 2, 3, 4, 5] = Inr 1"
proof -
  let ?img = "[[1, 1, 2], [2, 5, 5], [5, 9, 9]] :: raster"
  let ?w = "[1, 7, 2, 1, 9, 2, 3, 4, 5] :: int list"
  note inst = mode_filter_first_maximum [of ?img 3 ?w]
  have img: "is_raster ?img" by (simp add: is_raster_def height_def width_def)
  have "\<exists>out. apply_mode_filter ?img 3 = Inr out \<and> height out = 3 \<and>
      out ! 1 ! 1 \<in> set (window reflect_sym ?img 3 1 1)"
    using inst img by (auto simp: height_def width_def)
  moreover have "mode_value ?w = Inr 1"
    using inst by auto
  ultimately show ?thesis using img by blast
qed

text \<open>
  Counterexample to C1 as stated: the 3-by-3 neighbourhood of the centre of the raster
  below is 1, 1, 2, 2, 0, 0, 0, 0, 0; it contains 1, 1, 2, 2 and the filter yields 0 there.
\<close>

theorem mode_filter_tie_counterexample:
  "window reflect_sym [[1, 1, 2], [2, 0, 0], [0, 0, 0]] 3 1 1 = [1, 1, 2, 2, 0, 0, 0, 0, 0] \<and>
   mode_value [1, 1, 2, 2, 0, 0, 0, 0, 0] = Inr 0 \<and>
   apply_mode_filter [[1, 1, 2], [2, 0, 0], [0, 0, 0]] 3 = Inr [[1, 1, 2], [0, 0, 0], [0, 0, 0]]"
  by code_simp

section \<open>Noise injection (claim C2)\<close>

text \<open>
  Claim C2. In a session with a loaded image and a selected noise mode, \<open>add_noise\<close>
  draws the noise for the original image: the new working base is the scaled draw for
  \<open>original_img\<close> and is recorded under the label of the mode. Two sessions with the same
  original and the same mode get the same working base from the same draw whatever their
  working bases and entries were, so the noise injected after earlier filters and
  injections is the noise injected right after the load.
\<close>

theorem noise_from_original:
  "original_img s = Some orig \<longrightarrow>
     (noise_var s = ''gaussian'' \<longrightarrow>
        add_noise random_noise s =
          (Done, s\<lparr>processing_base_img := Some (scale_to_uint8 (random_noise orig (Gaussian (1 / 100)))),
                   results := dict_set (results s) ''Base: Gaussian Noise''
                                (scale_to_uint8 (random_noise orig (Gaussian (1 / 100))))\<rparr>)) \<and>
     (noise_var s = ''s&p'' \<longrightarrow>
        add_noise random_noise s =
          (Done, s\<lparr>processing_base_img := Some (scale_to_uint8 (random_noise orig (SaltPepper (5 / 100)))),
                   results := dict_set (results s) ''Base: Salt & Pepper Noise''
                                (scale_to_uint8 (random_noise orig (SaltPepper (5 / 100))))\<rparr>)) \<and>
     (\<forall>s'. original_img s' = Some orig \<and> noise_var s' = noise_var s \<and>
            noise_var s \<in> set [''gaussian'', ''s&p''] \<longrightarrow>
        fst (add_noise random_noise s') = Done \<and>
        processing_base_img (snd (add_noise random_noise s'))
          = processing_base_img (snd (add_noise random_noise s))) \<and>
     (\<forall>acts. (\<forall>a\<in>set acts. \<not> loads a) \<and>
             noise_var (run acts s) = noise_var s \<and> noise_var s \<in> set [''gaussian'', ''s&p''] \<longrightarrow>
        processing_base_img (snd (add_noise random_noise (run acts s)))
          = processing_base_img (snd (add_noise random_noise s)))"
proof
  assume o: "original_img s = Some orig"
  have g: "add_noise random_noise t =
          (Done, t\<lparr>processing_base_img := Some (scale_to_uint8 (random_noise orig (Gaussian (1 / 100)))),
                   results := dict_set (results t) ''Base: Gaussian Noise''
                                (scale_to_uint8 (random_noise orig (Gaussian (1 / 100))))\<rparr>)"
    if "original_img t = Some orig" "noise_var t = ''gaussian''" for t
    using that by (simp add: add_noise_def Let_def)
  have p: "add_noise random_noise t =
          (Done, t\<lparr>processing_base_img := Some (scale_to_uint8 (random_noise orig (SaltPepper (5 / 100)))),
                   results := dict_set (results t) ''Base: Salt & Pepper Noise''
                                (scale_to_uint8 (random_noise orig (SaltPepper (5 / 100))))\<rparr>)"
    if "original_img t = Some orig" "noise_var t = ''s&p''" for t
    using that by (simp add: add_noise_def Let_def)
  have same: "fst (add_noise random_noise s') = Done \<and>
        processing_base_img (snd (add_noise random_noise s'))
          = processing_base_img (snd (add_noise random_noise s))"
    if "original_img s' = Some orig" "noise_var s' = noise_var s"
       "noise_var s \<in> set [''gaussian'', ''s&p'']" for s'
  proof (cases "noise_var s = ''gaussian''")
    case True
    then show ?thesis using g [of s] g [of s'] o that by simp
  next
    case False
    then have "noise_var s = ''s&p''" using that(3) by simp
    then show ?thesis using p [of s] p [of s'] o that by simp
  qed
  have runs: "processing_base_img (snd (add_noise random_noise (run acts s)))
          = processing_base_img (snd (add_noise random_noise s))"
    if "\<forall>a\<in>set acts. \<not> loads a" "noise_var (run acts s) = noise_var s"
       "noise_var s \<in> set [''gaussian'', ''s&p'']" for acts
  proof -
    have "original_img (run acts s) = Some orig"
      using run_keeps_original [OF that(1), of s] o by simp
    then show ?thesis using same [of "run acts s"] that by simp
  qed
  show "(noise_var s = ''gaussian'' \<longrightarrow>
        add_noise random_noise s =
          (Done, s\<lparr>processing_base_img := Some (scale_to_uint8 (random_noise orig (Gaussian (1 / 100)))),
                   results := dict_set (results s) ''Base: Gaussian Noise''
                                (scale_to_uint8 (random_noise orig (Gaussian (1 / 100))))\<rparr>)) \<and>
     (noise_var s = ''s&p'' \<longrightarrow>
        add_noise random_noise s =
          (Done, s\<lparr>processing_base_img := Some (scale_to_uint8 (random_noise orig (SaltPepper (5 / 100)))),
                   results := dict_set (results s) ''Base: Salt & Pepper Noise''
                                (scale_to_uint8 (random_noise orig (SaltPepper (5 / 100))))\<rparr>)) \<and>
     (\<forall>s'. original_img s' = Some orig \<and> noise_var s' = noise_var s \<and>
            noise_var s \<in> set [''gaussian'', ''s&p''] \<longrightarrow>
        fst (add_noise random_noise s') = Done \<and>
        processing_base_img (snd (add_noise random_noise s'))
          = processing_base_img (snd (add_noise random_noise s))) \<and>
     (\<forall>acts. (\<forall>a\<in>set acts. \<not> loads a) \<and>
             noise_var (run acts s) = noise_var s \<and> noise_var s \<in> set [''gaussian'', ''s&p''] \<longrightarrow>
        processing_base_img (snd (add_noise random_noise (run acts s)))
          = processing_base_img (snd (add_noise random_noise s)))"
    using g [OF o] p [OF o] same runs by blast
qed

text \<open>
  Witness for C2: an image is loaded, salt-and-pepper noise is selected, a mean filter and a
  first noise injection run, and the second injection still yields the draw for the
  original image.
\<close>

theorem noise_from_original_witness:
  "original_img (run [Upload (\<lambda>p. Some [[10, 20], [30, 40]]) ''cat.png'', SelectNoise ''s&p''] init_session)
     = Some [[10, 20], [30, 40]] \<and>
   processing_base_img
     (snd (add_noise (\<lambda>img req. map (map (\<lambda>p. if p = 20 then 1 else real_of_int p / 255)) img)
        (run [ApplyMethod, AddNoise (\<lambda>img req. [[0, 0], [0, 0]])]
          (run [Upload (\<lambda>p. Some [[10, 20], [30, 40]]) ''cat.png'', SelectNoise ''s&p''] init_session))))
     = Some [[10, 255], [30, 40]]"
proof -
  let ?s = "run [Upload (\<lambda>p. Some [[10, 20], [30, 40]]) ''cat.png'', SelectNoise ''s&p''] init_session"
  let ?rn = "\<lambda>(img :: raster) (req :: noise_request). map (map (\<lambda>p. if p = 20 then 1 else real_of_int p / 255)) img"
  let ?acts = "[ApplyMethod, AddNoise (\<lambda>img req. [[0, 0], [0, 0]])]"
  have o: "original_img ?s = Some [[10, 20], [30, 40]]"
    by (simp add: upload_image_def reset_image_def init_session_def)
  have n: "noise_var ?s = ''s&p''"
    by (simp add: upload_image_def reset_image_def init_session_def)
  have acts: "\<forall>a\<in>set ?acts. \<not> loads a" by simp
  have keep: "noise_var (run ?acts ?s) = noise_var ?s"
    using apply_method_effect [of ?s] n o
    by (auto simp: add_noise_def Let_def split: option.splits)
  note inst = noise_from_original [of ?s "[[10, 20], [30, 40]]" ?rn]
  have scaled: "scale_to_uint8 (?rn [[10, 20], [30, 40]] (SaltPepper (5 / 100))) = [[10, 255], [30, 40]]"
    by (simp add: scale_to_uint8_def astype_uint8_def)
  have "add_noise ?rn ?s =
          (Done, ?s\<lparr>processing_base_img := Some (scale_to_uint8 (?rn [[10, 20], [30, 40]] (SaltPepper (5 / 100)))),
                   results := dict_set (results ?s) ''Base: Salt & Pepper Noise''
                                (scale_to_uint8 (?rn [[10, 20], [30, 40]] (SaltPepper (5 / 100))))\<rparr>)"
    using inst o n by blast
  then have direct: "processing_base_img (snd (add_noise ?rn ?s)) = Some [[10, 255], [30, 40]]"
    unfolding scaled by simp
  have mem: "noise_var ?s \<in> set [''gaussian'', ''s&p'']" using n by simp
  have "processing_base_img (snd (add_noise ?rn (run ?acts ?s)))
          = processing_base_img (snd (add_noise ?rn ?s))"
    using inst o acts keep mem by blast
  with direct o show ?thesis by simp
qed

section \<open>Reset (claim C3)\<close>

text \<open>
  Claim C3. In a session with a loaded image, after any sequence of actions without an
  upload (noise injections, filter applications, changes of the controls, exports), a
  reset succeeds and leaves exactly the one entry \<open>Original\<close>, holding the original
  image, with the working base equal to the original. After every successful load and
  every successful reset the entry \<open>Original\<close> is the original image, and it stays so
  along every sequence of actions.
\<close>

theorem reset_restores_original:
  "(original_img s = Some orig \<and> (\<forall>a\<in>set acts. \<not> loads a) \<longrightarrow>
      fst (reset_image (run acts s)) = Done \<and>
      results (snd (reset_image (run acts s))) = [(''Original'', orig)] \<and>
      processing_base_img (snd (reset_image (run acts s))) = Some orig \<and>
      original_img (snd (reset_image (run acts s))) = Some orig) \<and>
   (fst (upload_image imread path s) = Done \<longrightarrow>
      original_img (snd (upload_image imread path s)) = imread path \<and>
      dict_get (results (snd (upload_image imread path s))) ''Original''
        = original_img (snd (upload_image imread path s)) \<and>
      original_img (snd (upload_image imread path s)) \<noteq> None) \<and>
   (fst (reset_image s) = Done \<longrightarrow>
      dict_get (results (snd (reset_image s))) ''Original'' = original_img (snd (reset_image s)) \<and>
      original_img (snd (reset_image s)) \<noteq> None) \<and>
   (consistent s \<and> original_img s \<noteq> None \<longrightarrow>
      dict_get (results (run acts s)) ''Original'' = original_img (run acts s))"
proof (intro conjI impI)
  assume a: "original_img s = Some orig \<and> (\<forall>a\<in>set acts. \<not> loads a)"
  then have o: "original_img (run acts s) = Some orig"
    using run_keeps_original [of acts s] by simp
  then show "fst (reset_image (run acts s)) = Done"
    "results (snd (reset_image (run acts s))) = [(''Original'', orig)]"
    "processing_base_img (snd (reset_image (run acts s))) = Some orig"
    "original_img (snd (reset_image (run acts s))) = Some orig"
    by (simp_all add: reset_image_def)
next
  assume d: "fst (upload_image imread path s) = Done"
  then obtain img where img: "path \<noteq> []" "imread path = Some img"
    by (auto simp: upload_image_def split: if_splits option.splits)
  then show "original_img (snd (upload_image imread path s)) = imread path"
    "dict_get (results (snd (upload_image imread path s))) ''Original''
        = original_img (snd (upload_image imread path s))"
    "original_img (snd (upload_image imread path s)) \<noteq> None"
    by (simp_all add: upload_image_def reset_image_def)
next
  assume d: "fst (reset_image s) = Done"
  then obtain img where "original_img s = Some img"
    by (auto simp: reset_image_def split: option.splits)
  then show "dict_get (results (snd (reset_image s))) ''Original'' = original_img (snd (reset_image s))"
    "original_img (snd (reset_image s)) \<noteq> None"
    by (simp_all add: reset_image_def)
next
  assume c: "consistent s \<and> original_img s \<noteq> None"
  then have "consistent (run acts s)" by (simp add: run_consistent)
  moreover have "original_img (run acts s) \<noteq> None"
    using c
  proof (induction acts arbitrary: s)
    case Nil
    then show ?case by simp
  next
    case (Cons a acts)
    have "original_img (snd (step a s)) \<noteq> None"
    proof (cases "loads a")
      case True
      then obtain imread path where "a = Upload imread path" by (cases a) auto
      then show ?thesis using Cons.prems
        by (auto simp: upload_image_def reset_image_def split: option.splits)
    next
      case False
      then show ?thesis using Cons.prems step_keeps_original [of a s] by simp
    qed
    moreover have "consistent (snd (step a s))" using Cons.prems by (simp add: step_consistent)
    ultimately show ?case using Cons.IH [of "snd (step a s)"] by simp
  qed
  ultimately show "dict_get (results (run acts s)) ''Original'' = original_img (run acts s)"
    by (auto simp: consistent_def split: option.splits)
qed

text \<open>Witness for C3: load, select Gaussian noise, inject it, apply the mean filter, reset.\<close>

theorem reset_restores_original_witness:
  "original_img (snd (upload_image (\<lambda>p. Some [[10, 20], [30, 40]]) ''cat.png'' init_session))
     = Some [[10, 20], [30, 40]] \<and>
   fst (reset_image (run [SelectNoise ''gaussian'', AddNoise (\<lambda>img req. [[1 / 2, 1]]), ApplyMethod]
          (snd (upload_image (\<lambda>p. Some [[10, 20], [30, 40]]) ''cat.png'' init_session)))) = Done \<and>
   results (snd (reset_image (run [SelectNoise ''gaussian'', AddNoise (\<lambda>img req. [[1 / 2, 1]]), ApplyMethod]
          (snd (upload_image (\<lambda>p. Some [[10, 20], [30, 40]]) ''cat.png'' init_session)))))
     = [(''Original'', [[10, 20], [30, 40]])] \<and>
   processing_base_img (snd (reset_image (run [SelectNoise ''gaussian'', AddNoise (\<lambda>img req. [[1 / 2, 1]]), ApplyMethod]
          (snd (upload_image (\<lambda>p. Some [[10, 20], [30, 40]]) ''cat.png'' init_session)))))
     = Some [[10, 20], [30, 40]]"
proof -
  let ?s = "snd (upload_image (\<lambda>p. Some [[10, 20], [30, 40]]) ''cat.png'' init_session)"
  let ?acts = "[SelectNoise ''gaussian'', AddNoise (\<lambda>img req. [[1 / 2, 1]]), ApplyMethod]"
  have loaded: "original_img ?s = Some [[10, 20], [30, 40]]"
    by (simp add: upload_image_def reset_image_def init_session_def)
  have acts: "\<forall>a\<in>set ?acts. \<not> loads a" by simp
  from reset_restores_original [of ?s "[[10, 20], [30, 40]]" ?acts] loaded acts
  show ?thesis by blast
qed

section \<open>The report (claim C4)\<close>

text \<open>
  Claim C4. In every session reached from the start, the export fails with
  \<open>NoResults\<close> exactly when \<open>results\<close> has at most one entry, and then \<open>results\<close> is
  empty or holds only the entry \<open>Original\<close>. With two or more entries it produces a
  document of exactly \<open>1 + (length results - 1)\<close> pages: the cover, then one page for
  every entry other than \<open>Original\<close>, in order, each with the original image on the left
  and the entry's raster on the right.
\<close>

theorem report_pages:
  "s = run acts init_session \<longrightarrow>
     (save_report s = Inl NoResults \<longleftrightarrow> length (results s) \<le> 1) \<and>
     (length (results s) \<le> 1 \<longrightarrow>
        results s = [] \<or> (\<exists>orig. results s = [(''Original'', orig)])) \<and>
     (2 \<le> length (results s) \<longrightarrow>
        (\<exists>doc orig. save_report s = Inr doc \<and> original_img s = Some orig \<and>
           length (pages doc) = 1 + (length (results s) - 1) \<and>
           pages doc =
             Cover ''Spatial Filtering Analysis'' (''Image: '' @ current_name s) #
             map (\<lambda>(name, proc_img).
                    Analysis (''Analysis: '' @ name) (Some orig) proc_img (filter_expression s name))
               (filter (\<lambda>(name, proc_img). name \<noteq> ''Original'') (results s))))"
proof
  assume s: "s = run acts init_session"
  then have c: "consistent s" by (simp add: run_consistent consistent_init)
  have fail: "save_report s = Inl NoResults \<longleftrightarrow> length (results s) \<le> 1"
    by (simp add: save_report_def)
  have only: "results s = [] \<or> (\<exists>orig. results s = [(''Original'', orig)])"
    if le: "length (results s) \<le> 1"
  proof (cases "original_img s")
    case None
    then show ?thesis using c by (simp add: consistent_def)
  next
    case (Some orig)
    then have get: "dict_get (results s) ''Original'' = Some orig"
      using c by (simp add: consistent_def)
    then obtain e where "results s = [e]" using le by (cases "results s") auto
    then show ?thesis using get by (cases e) (auto split: if_splits)
  qed
  have many: "\<exists>doc orig. save_report s = Inr doc \<and> original_img s = Some orig \<and>
           length (pages doc) = 1 + (length (results s) - 1) \<and>
           pages doc =
             Cover ''Spatial Filtering Analysis'' (''Image: '' @ current_name s) #
             map (\<lambda>(name, proc_img).
                    Analysis (''Analysis: '' @ name) (Some orig) proc_img (filter_expression s name))
               (filter (\<lambda>(name, proc_img). name \<noteq> ''Original'') (results s))"
    if ge: "2 \<le> length (results s)"
  proof -
    from ge have "results s \<noteq> []" by auto
    then obtain orig where orig: "original_img s = Some orig"
      using c by (cases "original_img s") (auto simp: consistent_def)
    then have get: "dict_get (results s) ''Original'' = Some orig"
      and dist: "distinct (map fst (results s))"
      using c by (simp_all add: consistent_def)
    let ?doc = "\<lparr>pdf_path = ''results/'' @ current_name s @ ''_Filtering_Report.pdf'',
                pages = Cover ''Spatial Filtering Analysis'' (''Image: '' @ current_name s) #
                        map (analysis_page s)
                          (filter (\<lambda>(name, proc_img). name \<noteq> ''Original'') (results s))\<rparr>"
    have run: "save_report s = Inr ?doc" using ge by (simp add: save_report_def)
    have len: "length (pages ?doc) = 1 + (length (results s) - 1)"
      using count_other_keys [OF dist get] by simp
    have page: "analysis_page s = (\<lambda>(name, proc_img).
                    Analysis (''Analysis: '' @ name) (Some orig) proc_img (filter_expression s name))"
      using orig by (auto simp: analysis_page_def fun_eq_iff)
    show ?thesis using run len orig page by simp
  qed
  show "(save_report s = Inl NoResults \<longleftrightarrow> length (results s) \<le> 1) \<and>
     (length (results s) \<le> 1 \<longrightarrow>
        results s = [] \<or> (\<exists>orig. results s = [(''Original'', orig)])) \<and>
     (2 \<le> length (results s) \<longrightarrow>
        (\<exists>doc orig. save_report s = Inr doc \<and> original_img s = Some orig \<and>
           length (pages doc) = 1 + (length (results s) - 1) \<and>
           pages doc =
             Cover ''Spatial Filtering Analysis'' (''Image: '' @ current_name s) #
             map (\<lambda>(name, proc_img).
                    Analysis (''Analysis: '' @ name) (Some orig) proc_img (filter_expression s name))
               (filter (\<lambda>(name, proc_img). name \<noteq> ''Original'') (results s))))"
    using fail only many by blast
qed

text \<open>Witness for C4: two filters applied after a load give a cover and two pages.\<close>

theorem report_pages_witness:
  "length (results (run [Upload (\<lambda>p. Some [[7]]) ''cat.png'', ApplyMethod, SelectMethod ''Sobel Edge Detection'', ApplyMethod] init_session)) = 3 \<and>
   (\<exists>doc. save_report (run [Upload (\<lambda>p. Some [[7]]) ''cat.png'', ApplyMethod, SelectMethod ''Sobel Edge Detection'', ApplyMethod] init_session) = Inr doc \<and>
      length (pages doc) = 3) \<and>
   save_report (run [Upload (\<lambda>p. Some [[7]]) ''cat.png''] init_session) = Inl NoResults"
proof -
  let ?acts = "[Upload (\<lambda>p. Some [[7]]) ''cat.png'', ApplyMethod, SelectMethod ''Sobel Edge Detection'', ApplyMethod]"
  let ?s = "run ?acts init_session"
  let ?t = "run [Upload (\<lambda>p. Some [[7]]) ''cat.png''] init_session"
  have len: "length (results ?s) = 3" by code_simp
  have len1: "length (results ?t) = 1" by code_simp
  from report_pages [of ?s ?acts] len
  have "\<exists>doc. save_report ?s = Inr doc \<and> length (pages doc) = 3" by auto
  moreover from report_pages [of ?t "[Upload (\<lambda>p. Some [[7]]) ''cat.png'']"] len1
  have "save_report ?t = Inl NoResults" by auto
  ultimately show ?thesis using len by blast
qed

section \<open>Parameters (claim C5)\<close>

text \<open>
  Claim C5, as amended. \<open>apply_method\<close> checks neither the kernel size nor the method
  and never shows the \<open>InvalidParameter\<close> message. The kernel size is kept odd by the
  slider callback: every slider value from 3 to 15 is stored as an odd size from 3 to 15.
  With a method outside the five known names \<open>apply_method\<close> returns without a
  message and without a change. A kernel size below 1 reaches the library call of the
  mean, the median or the mode filter, which raises, and the session is unchanged. With
  an image loaded and a noise selector other than \<open>gaussian\<close> and \<open>s&p\<close>,
  \<open>add_noise\<close> shows the \<open>InvalidParameter\<close> message and changes nothing.
\<close>

theorem parameter_handling:
  "(3 \<le> val \<and> val \<le> 15 \<longrightarrow>
      fst (update_kernel_label val s) = Done \<and>
      odd (kernel_size_var (snd (update_kernel_label val s))) \<and>
      3 \<le> kernel_size_var (snd (update_kernel_label val s)) \<and>
      kernel_size_var (snd (update_kernel_label val s)) \<le> 15) \<and>
   fst (apply_method s) \<noteq> Warned InvalidParameter \<and>
   (processing_base_img s \<noteq> None \<and>
    method_var s \<notin> set [''Mean Filter'', ''Median Filter'', ''Mode Filter'',
                          ''Laplacian Sharpening'', ''Sobel Edge Detection''] \<longrightarrow>
      apply_method s = (Returned, s)) \<and>
   (original_img s \<noteq> None \<and> noise_var s \<notin> set [''gaussian'', ''s&p''] \<longrightarrow>
      add_noise random_noise s = (Warned InvalidParameter, s)) \<and>
   (processing_base_img s \<noteq> None \<and> kernel_size_var s < 1 \<and>
    method_var s \<in> set [''Mean Filter'', ''Median Filter'', ''Mode Filter''] \<longrightarrow>
      (\<exists>e. apply_method s = (Raised e, s)))"
proof (intro conjI impI)
  assume "3 \<le> val \<and> val \<le> 15"
  then have v: "3 \<le> val" "val \<le> 15" by simp_all
  from update_kernel_label_odd [OF v, of s]
  show "fst (update_kernel_label val s) = Done"
    "odd (kernel_size_var (snd (update_kernel_label val s)))"
    "3 \<le> kernel_size_var (snd (update_kernel_label val s))"
    "kernel_size_var (snd (update_kernel_label val s)) \<le> 15"
    by simp_all
next
  show "fst (apply_method s) \<noteq> Warned InvalidParameter"
    using apply_method_effect [of s] by auto
next
  assume a: "processing_base_img s \<noteq> None \<and>
    method_var s \<notin> set [''Mean Filter'', ''Median Filter'', ''Mode Filter'',
                          ''Laplacian Sharpening'', ''Sobel Edge Detection'']"
  then obtain base where base: "processing_base_img s = Some base" by auto
  have plain: "smooth_before_sharp_var s = 0 \<or>
                method_var s \<notin> set [''Laplacian Sharpening'', ''Sobel Edge Detection'']"
    using a by simp
  show "apply_method s = (Returned, s)"
    using apply_method_plain [OF base plain] a by simp
next
  assume "original_img s \<noteq> None \<and> noise_var s \<notin> set [''gaussian'', ''s&p'']"
  then show "add_noise random_noise s = (Warned InvalidParameter, s)"
    by (auto simp: add_noise_def Let_def)
next
  assume a: "processing_base_img s \<noteq> None \<and> kernel_size_var s < 1 \<and>
    method_var s \<in> set [''Mean Filter'', ''Median Filter'', ''Mode Filter'']"
  then obtain base where base: "processing_base_img s = Some base" by auto
  have plain: "smooth_before_sharp_var s = 0 \<or>
                method_var s \<notin> set [''Laplacian Sharpening'', ''Sobel Edge Detection'']"
    using a by auto
  have k: "kernel_size_var s \<le> 0" using a by simp
  have mean: "apply_mean_filter base (kernel_size_var s) = Inl CvError"
    using k by (simp add: apply_mean_filter_def cv2_blur_def)
  have median: "apply_median_filter base (kernel_size_var s) = Inl CvError"
    using k by (simp add: apply_median_filter_def cv2_medianBlur_def)
  have mode: "\<exists>e. apply_mode_filter base (kernel_size_var s) = Inl e"
    using k by (simp add: apply_mode_filter_def generic_filter_def)
  from a consider "method_var s = ''Mean Filter''" | "method_var s = ''Median Filter''"
    | "method_var s = ''Mode Filter''" by auto
  then show "\<exists>e. apply_method s = (Raised e, s)"
  proof cases
    case 1
    then show ?thesis using apply_method_plain [OF base plain] mean by simp
  next
    case 2
    then show ?thesis using apply_method_plain [OF base plain] median by simp
  next
    case 3
    then show ?thesis using apply_method_plain [OF base plain] mode by auto
  qed
qed

text \<open>
  Witness for C5: the slider value 4.5, an unknown method, no noise type selected, and
  the kernel size 0 for the mean filter.
\<close>

theorem parameter_handling_witness:
  "(3 :: real) \<le> 9 / 2 \<and> (9 / 2 :: real) \<le> 15 \<and>
   odd (kernel_size_var (snd (update_kernel_label (9 / 2)
          (snd (upload_image (\<lambda>p. Some [[7]]) ''cat.png'' init_session)\<lparr>method_var := ''Bogus''\<rparr>)))) \<and>
   apply_method (snd (upload_image (\<lambda>p. Some [[7]]) ''cat.png'' init_session)\<lparr>method_var := ''Bogus''\<rparr>)
     = (Returned, snd (upload_image (\<lambda>p. Some [[7]]) ''cat.png'' init_session)\<lparr>method_var := ''Bogus''\<rparr>) \<and>
   add_noise (\<lambda>img req. [[1]])
       (snd (upload_image (\<lambda>p. Some [[7]]) ''cat.png'' init_session)\<lparr>method_var := ''Bogus''\<rparr>)
     = (Warned InvalidParameter,
        snd (upload_image (\<lambda>p. Some [[7]]) ''cat.png'' init_session)\<lparr>method_var := ''Bogus''\<rparr>) \<and>
   (\<exists>e. apply_method (snd (upload_image (\<lambda>p. Some [[7]]) ''cat.png'' init_session)\<lparr>kernel_size_var := 0\<rparr>)
     = (Raised e, snd (upload_image (\<lambda>p. Some [[7]]) ''cat.png'' init_session)\<lparr>kernel_size_var := 0\<rparr>))"
proof -
  let ?s = "snd (upload_image (\<lambda>p. Some [[7]]) ''cat.png'' init_session)\<lparr>method_var := ''Bogus''\<rparr>"
  let ?t = "snd (upload_image (\<lambda>p. Some [[7]]) ''cat.png'' init_session)\<lparr>kernel_size_var := 0\<rparr>"
  have range: "(3 :: real) \<le> 9 / 2 \<and> (9 / 2 :: real) \<le> 15" by simp
  have s: "processing_base_img ?s \<noteq> None" "original_img ?s \<noteq> None"
    "method_var ?s \<notin> set [''Mean Filter'', ''Median Filter'', ''Mode Filter'',
                          ''Laplacian Sharpening'', ''Sobel Edge Detection'']"
    "noise_var ?s \<notin> set [''gaussian'', ''s&p'']"
    by (simp_all add: upload_image_def reset_image_def init_session_def)
  have t: "processing_base_img ?t \<noteq> None" "kernel_size_var ?t < 1"
    "method_var ?t \<in> set [''Mean Filter'', ''Median Filter'', ''Mode Filter'']"
    by (simp_all add: upload_image_def reset_image_def init_session_def)
  note a = parameter_handling [of "9 / 2" ?s "\<lambda>img req. [[1]]"]
  note b = parameter_handling [of "9 / 2" ?t "\<lambda>img req. [[1]]"]
  have "odd (kernel_size_var (snd (update_kernel_label (9 / 2) ?s)))"
    using a range by blast
  moreover have "apply_method ?s = (Returned, ?s)" using a s(1,3) by blast
  moreover have "add_noise (\<lambda>img req. [[1]]) ?s = (Warned InvalidParameter, ?s)"
    using a s(2,4) by blast
  moreover have "\<exists>e. apply_method ?t = (Raised e, ?t)" using b t by blast
  ultimately show ?thesis using range by blast
qed

text \<open>
  Counterexample to C5 as stated: with the unknown method "Bogus" \<open>apply_method\<close>
  returns without any error; with the kernel size 17, outside 3..15, it runs to its
  end; and the mean and the mode filter accept the even kernel size 4.
\<close>

theorem parameter_handling_counterexample:
  "method_var (run [Upload (\<lambda>p. Some [[7]]) ''cat.png'', SelectMethod ''Bogus''] init_session) = ''Bogus'' \<and>
   step ApplyMethod (run [Upload (\<lambda>p. Some [[7]]) ''cat.png'', SelectMethod ''Bogus''] init_session)
     = (Returned, run [Upload (\<lambda>p. Some [[7]]) ''cat.png'', SelectMethod ''Bogus''] init_session) \<and>
   kernel_size_var (run [Upload (\<lambda>p. Some [[7]]) ''cat.png'', SlideKernel 17] init_session) = 17 \<and>
   fst (step ApplyMethod (run [Upload (\<lambda>p. Some [[7]]) ''cat.png'', SlideKernel 17] init_session)) = Done \<and>
   apply_mean_filter [[7]] 4 = Inr [[7]] \<and>
   apply_mode_filter [[7]] 4 = Inr [[7]]"
proof -
  have "method_var (run [Upload (\<lambda>p. Some [[7]]) ''cat.png'', SelectMethod ''Bogus''] init_session) = ''Bogus''"
    by (simp add: upload_image_def reset_image_def init_session_def)
  moreover have "step ApplyMethod (run [Upload (\<lambda>p. Some [[7]]) ''cat.png'', SelectMethod ''Bogus''] init_session)
     = (Returned, run [Upload (\<lambda>p. Some [[7]]) ''cat.png'', SelectMethod ''Bogus''] init_session)"
    by (simp add: upload_image_def reset_image_def init_session_def apply_method_def)
  moreover have "kernel_size_var (run [Upload (\<lambda>p. Some [[7]]) ''cat.png'', SlideKernel 17] init_session) = 17"
    by (simp add: upload_image_def reset_image_def init_session_def update_kernel_label_def
        py_round_def)
  moreover have "fst (step ApplyMethod (run [Upload (\<lambda>p. Some [[7]]) ''cat.png'', SlideKernel 17] init_session)) = Done"
    by code_simp
  moreover have "apply_mean_filter [[7]] 4 = Inr [[7]]" by code_simp
  moreover have "apply_mode_filter [[7]] 4 = Inr [[7]]" by code_simp
  ultimately show ?thesis by blast
qed

section \<open>Laplacian sharpening and Sobel edges (claim C6)\<close>

text \<open>
  Claim C6. For every valid 8-bit raster both filters succeed and every output sample lies
  in 0..255. The Laplacian and the two Sobel gradients are the exact correlations with
  their kernels: they fit into 16 bits, so the 16-bit store never saturates. Their
  absolute values are clamped to 255, the Laplacian result is the difference of the input
  and that clamped value, cut off at 0, and the Sobel result is the rounded half sum of
  the two clamped gradients.
\<close>

theorem laplacian_and_sobel_saturate:
  "is_raster img \<longrightarrow>
     (\<exists>lap out. cv2_Laplacian img = Inr lap \<and> apply_laplacian_filter img = Inr out \<and>
           same_shape out img \<and>
           (\<forall>i<height img. \<forall>j<width img.
              lap ! i ! j = correlate (laplacian_kernel 3) (window reflect101 img 3 i j) \<and>
              - 32768 \<le> lap ! i ! j \<and> lap ! i ! j \<le> 32767 \<and>
              out ! i ! j = max 0 (img ! i ! j - min 255 \<bar>lap ! i ! j\<bar>) \<and>
              0 \<le> out ! i ! j \<and> out ! i ! j \<le> 255)) \<and>
     (\<exists>gx gy out. cv2_Sobel img 1 0 = Inr gx \<and> cv2_Sobel img 0 1 = Inr gy \<and>
           apply_sobel_filter img = Inr out \<and> same_shape out img \<and>
           (\<forall>i<height img. \<forall>j<width img.
              gx ! i ! j = correlate sobel_x_kernel (window reflect101 img 3 i j) \<and>
              gy ! i ! j = correlate sobel_y_kernel (window reflect101 img 3 i j) \<and>
              - 32768 \<le> gx ! i ! j \<and> gx ! i ! j \<le> 32767 \<and>
              - 32768 \<le> gy ! i ! j \<and> gy ! i ! j \<le> 32767 \<and>
              out ! i ! j = round_div (min 255 \<bar>gx ! i ! j\<bar> + min 255 \<bar>gy ! i ! j\<bar>) 2 \<and>
              0 \<le> out ! i ! j \<and> out ! i ! j \<le> 255))"
  using laplacian_sharpen_pixels [of img] sobel_edge_pixels [of img] by blast

text \<open>Witness for C6: a raster with a vertical edge, where both clamps are active.\<close>

theorem laplacian_and_sobel_saturate_witness:
  "is_raster [[0, 0, 255], [0, 0, 255]] \<and>
   (\<exists>lap out. cv2_Laplacian [[0, 0, 255], [0, 0, 255]] = Inr lap \<and>
      apply_laplacian_filter [[0, 0, 255], [0, 0, 255]] = Inr out \<and>
      - 32768 \<le> lap ! 0 ! 2 \<and> lap ! 0 ! 2 \<le> 32767 \<and> 0 \<le> out ! 0 ! 2 \<and> out ! 0 ! 2 \<le> 255) \<and>
   (\<exists>out. apply_sobel_filter [[0, 0, 255], [0, 0, 255]] = Inr out \<and>
      0 \<le> out ! 0 ! 1 \<and> out ! 0 ! 1 \<le> 255)"
proof -
  let ?img = "[[0, 0, 255], [0, 0, 255]] :: raster"
  have img: "is_raster ?img" by (simp add: is_raster_def height_def width_def)
  have hw: "height ?img = 2" "width ?img = 3" by (simp_all add: height_def width_def)
  note inst = laplacian_and_sobel_saturate [of ?img]
  have "\<exists>lap out. cv2_Laplacian ?img = Inr lap \<and> apply_laplacian_filter ?img = Inr out \<and>
      - 32768 \<le> lap ! 0 ! 2 \<and> lap ! 0 ! 2 \<le> 32767 \<and> 0 \<le> out ! 0 ! 2 \<and> out ! 0 ! 2 \<le> 255"
  proof -
    from inst img obtain lap out where
      run: "cv2_Laplacian ?img = Inr lap" "apply_laplacian_filter ?img = Inr out"
      and px: "\<forall>i<height ?img. \<forall>j<width ?img.
          lap ! i ! j = correlate (laplacian_kernel 3) (window reflect101 ?img 3 i j) \<and>
          - 32768 \<le> lap ! i ! j \<and> lap ! i ! j \<le> 32767 \<and>
          out ! i ! j = max 0 (?img ! i ! j - min 255 \<bar>lap ! i ! j\<bar>) \<and>
          0 \<le> out ! i ! j \<and> out ! i ! j \<le> 255"
      by blast
    have "(0 :: nat) < 2" "(2 :: nat) < 3" by simp_all
    then have "- 32768 \<le> lap ! 0 ! 2 \<and> lap ! 0 ! 2 \<le> 32767 \<and> 0 \<le> out ! 0 ! 2 \<and> out ! 0 ! 2 \<le> 255"
      using px unfolding hw by blast
    with run show ?thesis by blast
  qed
  moreover have "\<exists>out. apply_sobel_filter ?img = Inr out \<and> 0 \<le> out ! 0 ! 1 \<and> out ! 0 ! 1 \<le> 255"
  proof -
    from inst img obtain out where
      run: "apply_sobel_filter ?img = Inr out"
      and px: "\<forall>i<height ?img. \<forall>j<width ?img. 0 \<le> out ! i ! j \<and> out ! i ! j \<le> 255"
      by blast
    have "(0 :: nat) < 2" "(1 :: nat) < 3" by simp_all
    then have "0 \<le> out ! 0 ! 1 \<and> out ! 0 ! 1 \<le> 255"
      using px unfolding hw by blast
    with run show ?thesis by blast
  qed
  ultimately show ?thesis using img by blast
qed

section \<open>Smoothing before sharpening (claim C7)\<close>

text \<open>
  Claim C7. With the flag set and the method Laplacian sharpening or Sobel edge detection,
  \<open>apply_method\<close> on a valid working base first applies the median filter of kernel size
  5 to it, runs the method on the smoothed raster and records the result under the label
  of the method prefixed by "Smoothed then ". With the flag clear, and for the mean, the
  median and the mode filter whatever the flag, the method runs on the working base itself
  and the label is the plain name of the method.
\<close>

theorem smoothing_before_sharpening:
  "processing_base_img s = Some base \<longrightarrow>
     (is_raster base \<and> smooth_before_sharp_var s \<noteq> 0 \<and> method_var s = ''Laplacian Sharpening'' \<longrightarrow>
        (\<exists>smoothed out.
           apply_median_filter base 5 = Inr smoothed \<and> apply_laplacian_filter smoothed = Inr out \<and>
           apply_method s =
             (Done, s\<lparr>results := dict_set (results s) ''Smoothed then Laplacian Sharpening'' out\<rparr>))) \<and>
     (is_raster base \<and> smooth_before_sharp_var s \<noteq> 0 \<and> method_var s = ''Sobel Edge Detection'' \<longrightarrow>
        (\<exists>smoothed out.
           apply_median_filter base 5 = Inr smoothed \<and> apply_sobel_filter smoothed = Inr out \<and>
           apply_method s =
             (Done, s\<lparr>results := dict_set (results s) ''Smoothed then Sobel Edge Detection'' out\<rparr>))) \<and>
     (smooth_before_sharp_var s = 0 \<and> method_var s = ''Laplacian Sharpening'' \<longrightarrow>
        apply_method s =
          (case apply_laplacian_filter base of
             Inl e \<Rightarrow> (Raised e, s)
           | Inr out \<Rightarrow> (Done, s\<lparr>results := dict_set (results s) ''Laplacian Sharpening'' out\<rparr>))) \<and>
     (smooth_before_sharp_var s = 0 \<and> method_var s = ''Sobel Edge Detection'' \<longrightarrow>
        apply_method s =
          (case apply_sobel_filter base of
             Inl e \<Rightarrow> (Raised e, s)
           | Inr out \<Rightarrow> (Done, s\<lparr>results := dict_set (results s) ''Sobel Edge Detection'' out\<rparr>))) \<and>
     (method_var s = ''Mean Filter'' \<longrightarrow>
        apply_method s =
          (case apply_mean_filter base (kernel_size_var s) of
             Inl e \<Rightarrow> (Raised e, s)
           | Inr out \<Rightarrow> (Done, s\<lparr>results := dict_set (results s) ''Mean Filter'' out\<rparr>))) \<and>
     (method_var s = ''Median Filter'' \<longrightarrow>
        apply_method s =
          (case apply_median_filter base (kernel_size_var s) of
             Inl e \<Rightarrow> (Raised e, s)
           | Inr out \<Rightarrow> (Done, s\<lparr>results := dict_set (results s) ''Median Filter'' out\<rparr>))) \<and>
     (method_var s = ''Mode Filter'' \<longrightarrow>
        apply_method s =
          (case apply_mode_filter base (kernel_size_var s) of
             Inl e \<Rightarrow> (Raised e, s)
           | Inr out \<Rightarrow> (Done, s\<lparr>results := dict_set (results s) ''Mode Filter'' out\<rparr>)))"
proof (intro impI conjI)
  assume base: "processing_base_img s = Some base"
  {
    assume a: "is_raster base \<and> smooth_before_sharp_var s \<noteq> 0 \<and> method_var s = ''Laplacian Sharpening''"
    from median_filter_raster [of base 5] a obtain smoothed where
      sm: "apply_median_filter base 5 = Inr smoothed" "is_raster smoothed" by auto
    from laplacian_sharpen_pixels [OF sm(2)] obtain out where
      out: "apply_laplacian_filter smoothed = Inr out" by blast
    have "apply_method s =
             (Done, s\<lparr>results := dict_set (results s) ''Smoothed then Laplacian Sharpening'' out\<rparr>)"
      using apply_method_smoothed [OF base _ _ sm(1)] a out by simp
    with sm(1) out
    show "\<exists>smoothed out.
           apply_median_filter base 5 = Inr smoothed \<and> apply_laplacian_filter smoothed = Inr out \<and>
           apply_method s =
             (Done, s\<lparr>results := dict_set (results s) ''Smoothed then Laplacian Sharpening'' out\<rparr>)"
      by blast
  }
  {
    assume a: "is_raster base \<and> smooth_before_sharp_var s \<noteq> 0 \<and> method_var s = ''Sobel Edge Detection''"
    from median_filter_raster [of base 5] a obtain smoothed where
      sm: "apply_median_filter base 5 = Inr smoothed" "is_raster smoothed" by auto
    from sobel_edge_pixels [OF sm(2)] obtain out where
      out: "apply_sobel_filter smoothed = Inr out" by blast
    have "apply_method s =
             (Done, s\<lparr>results := dict_set (results s) ''Smoothed then Sobel Edge Detection'' out\<rparr>)"
      using apply_method_smoothed [OF base _ _ sm(1)] a out by simp
    with sm(1) out
    show "\<exists>smoothed out.
           apply_median_filter base 5 = Inr smoothed \<and> apply_sobel_filter smoothed = Inr out \<and>
           apply_method s =
             (Done, s\<lparr>results := dict_set (results s) ''Smoothed then Sobel Edge Detection'' out\<rparr>)"
      by blast
  }
  {
    assume a: "smooth_before_sharp_var s = 0 \<and> method_var s = ''Laplacian Sharpening''"
    then show "apply_method s =
          (case apply_laplacian_filter base of
             Inl e \<Rightarrow> (Raised e, s)
           | Inr out \<Rightarrow> (Done, s\<lparr>results := dict_set (results s) ''Laplacian Sharpening'' out\<rparr>))"
      using apply_method_plain [OF base] by (simp split: sum.splits)
  }
  {
    assume a: "smooth_before_sharp_var s = 0 \<and> method_var s = ''Sobel Edge Detection''"
    then show "apply_method s =
          (case apply_sobel_filter base of
             Inl e \<Rightarrow> (Raised e, s)
           | Inr out \<Rightarrow> (Done, s\<lparr>results := dict_set (results s) ''Sobel Edge Detection'' out\<rparr>))"
      using apply_method_plain [OF base] by (simp split: sum.splits)
  }
  {
    assume a: "method_var s = ''Mean Filter''"
    then show "apply_method s =
          (case apply_mean_filter base (kernel_size_var s) of
             Inl e \<Rightarrow> (Raised e, s)
           | Inr out \<Rightarrow> (Done, s\<lparr>results := dict_set (results s) ''Mean Filter'' out\<rparr>))"
      using apply_method_plain [OF base] by (simp split: sum.splits)
  }
  {
    assume a: "method_var s = ''Median Filter''"
    then show "apply_method s =
          (case apply_median_filter base (kernel_size_var s) of
             Inl e \<Rightarrow> (Raised e, s)
           | Inr out \<Rightarrow> (Done, s\<lparr>results := dict_set (results s) ''Median Filter'' out\<rparr>))"
      using apply_method_plain [OF base] by (simp split: sum.splits)
  }
  {
    assume a: "method_var s = ''Mode Filter''"
    then show "apply_method s =
          (case apply_mode_filter base (kernel_size_var s) of
             Inl e \<Rightarrow> (Raised e, s)
           | Inr out \<Rightarrow> (Done, s\<lparr>results := dict_set (results s) ''Mode Filter'' out\<rparr>))"
      using apply_method_plain [OF base] by (simp split: sum.splits)
  }
qed

text \<open>Witness for C7: Sobel edge detection with the flag set, after a load.\<close>

theorem smoothing_before_sharpening_witness:
  "is_raster [[0, 0, 255], [0, 0, 255]] \<and>
   fst (apply_method (run [Upload (\<lambda>p. Some [[0, 0, 255], [0, 0, 255]]) ''cat.png'',
                           SelectMethod ''Sobel Edge Detection'', SetSmooth 1] init_session)) = Done \<and>
   map fst (results (snd (apply_method (run [Upload (\<lambda>p. Some [[0, 0, 255], [0, 0, 255]]) ''cat.png'',
                           SelectMethod ''Sobel Edge Detection'', SetSmooth 1] init_session))))
     = [''Original'', ''Smoothed then Sobel Edge Detection'']"
proof -
  let ?img = "[[0, 0, 255], [0, 0, 255]] :: raster"
  let ?s = "run [Upload (\<lambda>p. Some ?img) ''cat.png'',
                 SelectMethod ''Sobel Edge Detection'', SetSmooth 1] init_session"
  have img: "is_raster ?img" by (simp add: is_raster_def height_def width_def)
  have base: "processing_base_img ?s = Some ?img"
    and flag: "smooth_before_sharp_var ?s \<noteq> 0"
    and sel: "method_var ?s = ''Sobel Edge Detection''"
    and res: "results ?s = [(''Original'', ?img)]"
    by (simp_all add: upload_image_def reset_image_def init_session_def)
  from smoothing_before_sharpening [of ?s ?img] base img flag sel
  obtain out where
    "apply_method ?s =
       (Done, ?s\<lparr>results := dict_set (results ?s) ''Smoothed then Sobel Edge Detection'' out\<rparr>)"
    by blast
  then have "fst (apply_method ?s) = Done"
    "map fst (results (snd (apply_method ?s))) = [''Original'', ''Smoothed then Sobel Edge Detection'']"
    unfolding res by simp_all
  with img show ?thesis by blast
qed

section \<open>Failures leave the session unchanged (claim C8)\<close>

text \<open>
  Claim C8. Every action that does not run to its end leaves the whole session as it was.
  The listed failures are of that kind: a load of an unreadable file, a reset, a noise
  injection or a filter application without an image, a noise injection without a
  selected noise type, and an export without results each show their message and return
  the session unchanged.
\<close>

theorem failed_operations_keep_state:
  "(fst (step a s) \<noteq> Done \<longrightarrow> snd (step a s) = s) \<and>
   (path \<noteq> [] \<and> imread path = None \<longrightarrow> upload_image imread path s = (Warned IOError, s)) \<and>
   (original_img s = None \<longrightarrow>
      reset_image s = (Warned NoImageLoaded, s) \<and>
      add_noise random_noise s = (Warned NoImageLoaded, s)) \<and>
   (processing_base_img s = None \<longrightarrow> apply_method s = (Warned NoImageLoaded, s)) \<and>
   (original_img s \<noteq> None \<and> noise_var s \<noteq> ''gaussian'' \<and> noise_var s \<noteq> ''s&p'' \<longrightarrow>
      add_noise random_noise s = (Warned InvalidParameter, s)) \<and>
   (length (results s) \<le> 1 \<longrightarrow> step SaveReport s = (Warned NoResults, s))"
proof (intro conjI impI)
  assume f: "fst (step a s) \<noteq> Done"
  show "snd (step a s) = s"
  proof (cases a)
    case (Upload imread path)
    then show ?thesis using f
      by (auto simp: upload_image_def reset_image_def split: option.splits if_splits)
  next
    case Reset
    then show ?thesis using f by (auto simp: reset_image_def split: option.splits)
  next
    case (AddNoise rn)
    then show ?thesis using f
      by (auto simp: add_noise_def Let_def split: option.splits if_splits)
  next
    case ApplyMethod
    then show ?thesis using f apply_method_effect [of s] by auto
  next
    case SaveReport
    then show ?thesis by (simp split: sum.splits)
  next
    case (SlideKernel val)
    then show ?thesis using f by (simp add: update_kernel_label_def Let_def)
  next
    case (SelectNoise v)
    then show ?thesis using f by simp
  next
    case (SelectMethod v)
    then show ?thesis using f by simp
  next
    case (SetSmooth v)
    then show ?thesis using f by simp
  qed
next
  assume "path \<noteq> [] \<and> imread path = None"
  then show "upload_image imread path s = (Warned IOError, s)" by (simp add: upload_image_def)
next
  assume "original_img s = None"
  then show "reset_image s = (Warned NoImageLoaded, s)"
    "add_noise random_noise s = (Warned NoImageLoaded, s)"
    by (simp_all add: reset_image_def add_noise_def)
next
  assume "processing_base_img s = None"
  then show "apply_method s = (Warned NoImageLoaded, s)" by (simp add: apply_method_def)
next
  assume "original_img s \<noteq> None \<and> noise_var s \<noteq> ''gaussian'' \<and> noise_var s \<noteq> ''s&p''"
  then show "add_noise random_noise s = (Warned InvalidParameter, s)"
    by (auto simp: add_noise_def Let_def)
next
  assume "length (results s) \<le> 1"
  then show "step SaveReport s = (Warned NoResults, s)" by (simp add: save_report_def)
qed

text \<open>Witness for C8: each listed failure on a concrete session.\<close>

theorem failed_operations_keep_state_witness:
  "step ApplyMethod init_session = (Warned NoImageLoaded, init_session) \<and>
   step Reset init_session = (Warned NoImageLoaded, init_session) \<and>
   step (AddNoise (\<lambda>img req. [[1]])) init_session = (Warned NoImageLoaded, init_session) \<and>
   step (Upload (\<lambda>p. None) ''missing.png'') init_session = (Warned IOError, init_session) \<and>
   step SaveReport init_session = (Warned NoResults, init_session) \<and>
   add_noise (\<lambda>img req. [[1]]) (init_session\<lparr>original_img := Some [[7]]\<rparr>)
     = (Warned InvalidParameter, init_session\<lparr>original_img := Some [[7]]\<rparr>)"
proof -
  have none: "original_img init_session = None" "processing_base_img init_session = None"
    "length (results init_session) \<le> 1"
    by (simp_all add: init_session_def)
  have sel: "original_img (init_session\<lparr>original_img := Some [[7]]\<rparr>) \<noteq> None \<and>
             noise_var (init_session\<lparr>original_img := Some [[7]]\<rparr>) \<noteq> ''gaussian'' \<and>
             noise_var (init_session\<lparr>original_img := Some [[7]]\<rparr>) \<noteq> ''s&p''"
    by (simp add: init_session_def)
  have path: "''missing.png'' \<noteq> [] \<and> (\<lambda>p. None :: raster option) ''missing.png'' = None" by simp
  note a = failed_operations_keep_state
    [of ApplyMethod init_session "''missing.png''" "\<lambda>p. None" "\<lambda>img req. [[1]]"]
  note b = failed_operations_keep_state
    [of ApplyMethod "init_session\<lparr>original_img := Some [[7]]\<rparr>" "''missing.png''" "\<lambda>p. None"
        "\<lambda>img req. [[1]]"]
  show ?thesis using a b none sel path by simp
qed

section \<open>Dimensions (claim C9)\<close>

text \<open>
  Claim C9. For every valid raster R and every odd kernel size k from 3 to 15, the mean,
  the median and the mode filter each return a raster, and it has the height, the width
  and the row lengths of R.
\<close>

theorem smoothing_filters_preserve_dimensions:
  "is_raster R \<and> odd k \<and> 3 \<le> k \<and> k \<le> 15 \<longrightarrow>
     (\<exists>mean_out median_out mode_out.
        apply_mean_filter R k = Inr mean_out \<and>
        apply_median_filter R k = Inr median_out \<and>
        apply_mode_filter R k = Inr mode_out \<and>
        height mean_out = height R \<and> width mean_out = width R \<and> same_shape mean_out R \<and>
        height median_out = height R \<and> width median_out = width R \<and> same_shape median_out R \<and>
        height mode_out = height R \<and> width mode_out = width R \<and> same_shape mode_out R)"
proof
  assume a: "is_raster R \<and> odd k \<and> 3 \<le> k \<and> k \<le> 15"
  then have R: "is_raster R" and k0: "0 < k" and k1: "1 < k" and odd: "odd k" by simp_all
  from mean_filter_total [OF R k0] median_filter_total [OF R k1 odd] mode_filter_total [OF R k0]
  show "\<exists>mean_out median_out mode_out.
        apply_mean_filter R k = Inr mean_out \<and>
        apply_median_filter R k = Inr median_out \<and>
        apply_mode_filter R k = Inr mode_out \<and>
        height mean_out = height R \<and> width mean_out = width R \<and> same_shape mean_out R \<and>
        height median_out = height R \<and> width median_out = width R \<and> same_shape median_out R \<and>
        height mode_out = height R \<and> width mode_out = width R \<and> same_shape mode_out R"
    by blast
qed

text \<open>Witness for C9: a 2-by-3 raster filtered with kernel size 5.\<close>

theorem smoothing_filters_preserve_dimensions_witness:
  "is_raster [[10, 20, 30], [40, 50, 60]] \<and> odd (5 :: int) \<and>
   (\<exists>mean_out median_out mode_out.
        apply_mean_filter [[10, 20, 30], [40, 50, 60]] 5 = Inr mean_out \<and>
        apply_median_filter [[10, 20, 30], [40, 50, 60]] 5 = Inr median_out \<and>
        apply_mode_filter [[10, 20, 30], [40, 50, 60]] 5 = Inr mode_out \<and>
        height mean_out = 2 \<and> width mean_out = 3 \<and>
        height median_out = 2 \<and> width median_out = 3 \<and>
        height mode_out = 2 \<and> width mode_out = 3)"
proof -
  have R: "is_raster [[10, 20, 30], [40, 50, 60]]"
    by (simp add: is_raster_def height_def width_def)
  have hw: "height [[10, 20, 30], [40, 50, 60]] = 2" "width [[10, 20, 30], [40, 50, 60]] = 3"
    by (simp_all add: height_def width_def)
  from smoothing_filters_preserve_dimensions [of "[[10, 20, 30], [40, 50, 60]]" 5] R
  obtain mean_out median_out mode_out where
    "apply_mean_filter [[10, 20, 30], [40, 50, 60]] 5 = Inr mean_out"
    "apply_median_filter [[10, 20, 30], [40, 50, 60]] 5 = Inr median_out"
    "apply_mode_filter [[10, 20, 30], [40, 50, 60]] 5 = Inr mode_out"
    "height mean_out = 2" "width mean_out = 3"
    "height median_out = 2" "width median_out = 3"
    "height mode_out = 2" "width mode_out = 3"
    unfolding hw by auto
  with R show ?thesis by simp
qed

section \<open>The kernel size printed in the report (claim C10)\<close>

text \<open>
  Claim C10. Every page of the report for an entry whose cleaned name is "Mean Filter"
  prints the kernel size selected when the report is exported, whatever entry it is and
  whatever size produced its raster. It need not be the size that produced the raster:
  after a load, a mean filter of size 3 and a move of the slider to 15, the entry still
  holds the raster of size 3 (the raster of size 15 is another one) and the page prints
  "Kernel: 1/225 * ones(15,15)".
\<close>

theorem report_prints_current_kernel_size:
  "(save_report s = Inr doc \<and> (name, proc_img) \<in> set (results s) \<and> name \<noteq> ''Original'' \<and>
    clean_name name = ''Mean Filter'' \<longrightarrow>
      Analysis (''Analysis: '' @ name) (original_img s) proc_img
        (Some (''Filter Expression:'' @ [CHR 0x0A] @ mean_kernel_text (kernel_size_var s)))
        \<in> set (pages doc)) \<and>
   (kernel_size_var (run [Upload (\<lambda>p. Some [[10, 20], [30, 40]]) ''cat.png'', ApplyMethod] init_session) = 3 \<and>
    results (run [Upload (\<lambda>p. Some [[10, 20], [30, 40]]) ''cat.png'', ApplyMethod, SlideKernel 15] init_session)
      = [(''Original'', [[10, 20], [30, 40]]), (''Mean Filter'', [[30, 27], [23, 20]])] \<and>
    apply_mean_filter [[10, 20], [30, 40]] 3 = Inr [[30, 27], [23, 20]] \<and>
    apply_mean_filter [[10, 20], [30, 40]] 15 \<noteq> Inr [[30, 27], [23, 20]] \<and>
    filter_expression
       (run [Upload (\<lambda>p. Some [[10, 20], [30, 40]]) ''cat.png'', ApplyMethod, SlideKernel 15] init_session)
       ''Mean Filter''
      = Some (''Filter Expression:'' @ [CHR 0x0A] @ ''Kernel: 1/225 * ones(15,15)''))"
proof (intro conjI impI)
  assume a: "save_report s = Inr doc \<and> (name, proc_img) \<in> set (results s) \<and> name \<noteq> ''Original'' \<and>
    clean_name name = ''Mean Filter''"
  then have doc: "pages doc = Cover ''Spatial Filtering Analysis'' (''Image: '' @ current_name s) #
                        map (analysis_page s)
                          (filter (\<lambda>(name, proc_img). name \<noteq> ''Original'') (results s))"
    by (auto simp: save_report_def split: if_splits)
  have "(name, proc_img) \<in> set (filter (\<lambda>(name, proc_img). name \<noteq> ''Original'') (results s))"
    using a by simp
  then have "analysis_page s (name, proc_img) \<in> set (pages doc)"
    unfolding doc by (simp only: set_map list.set) blast
  moreover have "dict_get filter_kernels ''Mean Filter'' = Some (Sized mean_kernel_text)"
    by (simp add: filter_kernels_def)
  then have "filter_expression s name
      = Some (''Filter Expression:'' @ [CHR 0x0A] @ mean_kernel_text (kernel_size_var s))"
    using a by (simp add: filter_expression_def)
  ultimately show "Analysis (''Analysis: '' @ name) (original_img s) proc_img
        (Some (''Filter Expression:'' @ [CHR 0x0A] @ mean_kernel_text (kernel_size_var s)))
        \<in> set (pages doc)"
    by (simp add: analysis_page_def)
next
  show "kernel_size_var (run [Upload (\<lambda>p. Some [[10, 20], [30, 40]]) ''cat.png'', ApplyMethod] init_session) = 3"
    by code_simp
next
  show "results (run [Upload (\<lambda>p. Some [[10, 20], [30, 40]]) ''cat.png'', ApplyMethod, SlideKernel 15] init_session)
      = [(''Original'', [[10, 20], [30, 40]]), (''Mean Filter'', [[30, 27], [23, 20]])]"
    by code_simp
next
  show "apply_mean_filter [[10, 20], [30, 40]] 3 = Inr [[30, 27], [23, 20]]" by code_simp
next
  show "apply_mean_filter [[10, 20], [30, 40]] 15 \<noteq> Inr [[30, 27], [23, 20]]" by code_simp
next
  show "filter_expression
       (run [Upload (\<lambda>p. Some [[10, 20], [30, 40]]) ''cat.png'', ApplyMethod, SlideKernel 15] init_session)
       ''Mean Filter''
      = Some (''Filter Expression:'' @ [CHR 0x0A] @ ''Kernel: 1/225 * ones(15,15)'')"
    by code_simp
qed

text \<open>Witness for C10: the page of that session's report.\<close>

theorem report_prints_current_kernel_size_witness:
  "\<exists>doc. save_report (run [Upload (\<lambda>p. Some [[10, 20], [30, 40]]) ''cat.png'', ApplyMethod, SlideKernel 15] init_session)
           = Inr doc \<and>
         Analysis ''Analysis: Mean Filter'' (Some [[10, 20], [30, 40]]) [[30, 27], [23, 20]]
           (Some (''Filter Expression:'' @ [CHR 0x0A] @ mean_kernel_text 15)) \<in> set (pages doc)"
proof -
  let ?s = "run [Upload (\<lambda>p. Some [[10, 20], [30, 40]]) ''cat.png'', ApplyMethod, SlideKernel 15] init_session"
  have res: "results ?s = [(''Original'', [[10, 20], [30, 40]]), (''Mean Filter'', [[30, 27], [23, 20]])]"
    by code_simp
  have k: "kernel_size_var ?s = 15" by code_simp
  have o: "original_img ?s = Some [[10, 20], [30, 40]]" by code_simp
  have "length (results ?s) = 2" unfolding res by simp
  then obtain doc where doc: "save_report ?s = Inr doc" by (simp add: save_report_def)
  have mem: "(''Mean Filter'', [[30, 27], [23, 20]]) \<in> set (results ?s)" unfolding res by simp
  have name: "''Mean Filter'' \<noteq> ''Original''" "clean_name ''Mean Filter'' = ''Mean Filter''"
    by (simp_all add: clean_name_def)
  from report_prints_current_kernel_size [of ?s doc "''Mean Filter''" "[[30, 27], [23, 20]]"]
    doc mem name
  have "Analysis (''Analysis: '' @ ''Mean Filter'') (original_img ?s) [[30, 27], [23, 20]]
        (Some (''Filter Expression:'' @ [CHR 0x0A] @ mean_kernel_text (kernel_size_var ?s)))
        \<in> set (pages doc)"
    by blast
  then have "Analysis ''Analysis: Mean Filter'' (Some [[10, 20], [30, 40]]) [[30, 27], [23, 20]]
           (Some (''Filter Expression:'' @ [CHR 0x0A] @ mean_kernel_text 15)) \<in> set (pages doc)"
    unfolding k o by simp
  with doc show ?thesis by blast
qed

end
